theory Spec2Isabelle
  imports Complex_Main "HOL-Library.Sublist" "HOL-Library.Char_ord" "HOL-Library.List_Lexorder"
begin

section \<open>Python strings\<close>

text \<open>
  A Python \<open>str\<close> is modelled as a \<open>string\<close> whose characters are the code points
  0 to 255. The character classes below are those of CPython 3 on that range:
  \<open>str.isupper\<close>, \<open>str.islower\<close>, \<open>str.isspace\<close> (also the separators of
  \<open>str.split()\<close> and the class \<open>\s\<close> of \<open>re\<close>), the class \<open>\w\<close> of \<open>re\<close>, and
  \<open>str.lower\<close>.
\<close>

definition code_in :: "char \<Rightarrow> nat \<Rightarrow> nat \<Rightarrow> bool" where
  "code_in c lo hi = (lo \<le> of_char c \<and> (of_char c :: nat) \<le> hi)"

definition char_isupper :: "char \<Rightarrow> bool" where
  "char_isupper c = (code_in c 0x41 0x5A \<or> code_in c 0xC0 0xD6 \<or> code_in c 0xD8 0xDE)"

definition char_islower :: "char \<Rightarrow> bool" where
  "char_islower c =
     (code_in c 0x61 0x7A \<or> code_in c 0xAA 0xAA \<or> code_in c 0xB5 0xB5 \<or>
      code_in c 0xBA 0xBA \<or> code_in c 0xDF 0xF6 \<or> code_in c 0xF8 0xFF)"

definition char_isspace :: "char \<Rightarrow> bool" where
  "char_isspace c =
     (code_in c 0x09 0x0D \<or> code_in c 0x1C 0x20 \<or> code_in c 0x85 0x85 \<or>
      code_in c 0xA0 0xA0)"

definition char_isword :: "char \<Rightarrow> bool" where
  "char_isword c =
     (code_in c 0x30 0x39 \<or> code_in c 0x41 0x5A \<or> code_in c 0x5F 0x5F \<or>
      code_in c 0x61 0x7A \<or> code_in c 0xAA 0xAA \<or> code_in c 0xB2 0xB3 \<or>
      code_in c 0xB5 0xB5 \<or> code_in c 0xB9 0xBA \<or> code_in c 0xBC 0xBE \<or>
      code_in c 0xC0 0xD6 \<or> code_in c 0xD8 0xF6 \<or> code_in c 0xF8 0xFF)"

definition char_lower :: "char \<Rightarrow> char" where
  "char_lower c = (if char_isupper c then char_of (of_char c + (0x20 :: nat)) else c)"

definition str_lower :: "string \<Rightarrow> string" where
  "str_lower s = map char_lower s"

text \<open>\<open>s.isupper()\<close>: at least one cased character, and no lowercase one.\<close>

definition str_isupper :: "string \<Rightarrow> bool" where
  "str_isupper s = (list_ex char_isupper s \<and> \<not> list_ex char_islower s)"

text \<open>\<open>s.split()\<close>: the maximal runs of characters that are not whitespace.\<close>

fun split_run :: "string \<Rightarrow> string \<Rightarrow> string list" where
  "split_run cur [] = (if cur = [] then [] else [cur])"
| "split_run cur (c # cs) =
     (if char_isspace c
      then (if cur = [] then split_run [] cs else cur # split_run [] cs)
      else split_run (cur @ [c]) cs)"

definition str_split :: "string \<Rightarrow> string list" where
  "str_split s = split_run [] s"

text \<open>\<open>sep.join(xs)\<close>.\<close>

fun str_join :: "string \<Rightarrow> string list \<Rightarrow> string" where
  "str_join sep [] = []"
| "str_join sep [x] = x"
| "str_join sep (x # y # ys) = x @ sep @ str_join sep (y # ys)"

text \<open>Two lowercase hexadecimal digits for a code point, as escapes write it.\<close>

definition hex_digit :: "nat \<Rightarrow> char" where
  "hex_digit n = (if n < 10 then char_of (48 + n) else char_of (87 + n))"

definition hex_byte :: "char \<Rightarrow> string" where
  "hex_byte c = [hex_digit (of_char c div 16), hex_digit (of_char c mod 16)]"

text \<open>\<open>needle in s\<close> for strings.\<close>

fun str_contains :: "string \<Rightarrow> string \<Rightarrow> bool" where
  "str_contains needle [] = (needle = [])"
| "str_contains needle (c # cs) = (prefix needle (c # cs) \<or> str_contains needle cs)"


section \<open>The query engine: entities of a question\<close>

text \<open>The set \<open>question_words\<close> of \<open>_extract_entities_from_question\<close>.\<close>

definition question_words :: "string list" where
  "question_words =
     [''what'', ''who'', ''when'', ''where'', ''why'', ''how'', ''is'', ''are'', ''was'',
      ''were'', ''the'', ''a'', ''an'', ''in'', ''on'', ''at'', ''to'', ''for'', ''of'',
      ''with'', ''about'', ''does'', ''do'', ''did'', ''can'', ''could'', ''would'',
      ''should'', ''founded'', ''created'', ''made'', ''built'', ''developed'',
      ''invented'']"

text \<open>\<open>re.sub(r'[^\w\s]', '', word)\<close>.\<close>

definition clean_word :: "string \<Rightarrow> string" where
  "clean_word word = filter (\<lambda>c. char_isword c \<or> char_isspace c) word"

text \<open>\<open>clean_word[0].isupper() or clean_word.isupper()\<close>, for a non-empty word.\<close>

definition capitalised :: "string \<Rightarrow> bool" where
  "capitalised w = (case w of [] \<Rightarrow> False | c # _ \<Rightarrow> char_isupper c \<or> str_isupper w)"

text \<open>
  The loop over the words. The state is the pair of \<open>entities\<close> and
  \<open>current_entity\<close>. A word that cleans to nothing is skipped; a capitalised word is
  appended to the current entity unless its lowercase form is a question word; any
  other word closes the current entity.
\<close>

fun extract_loop :: "string list \<Rightarrow> string list \<Rightarrow> string list \<Rightarrow> string list \<times> string list" where
  "extract_loop [] entities current_entity = (entities, current_entity)"
| "extract_loop (word # words) entities current_entity =
     (if clean_word word = [] then extract_loop words entities current_entity
      else if capitalised (clean_word word) then
        (if str_lower (clean_word word) \<notin> set question_words
         then extract_loop words entities (current_entity @ [clean_word word])
         else extract_loop words entities current_entity)
      else if current_entity \<noteq> []
        then extract_loop words (entities @ [str_join '' '' current_entity]) []
        else extract_loop words entities current_entity)"

definition extract_entities_from_question :: "string \<Rightarrow> string list" where
  "extract_entities_from_question question =
     (case extract_loop (str_split question) [] [] of
        (entities, current_entity) \<Rightarrow>
          if current_entity \<noteq> [] then entities @ [str_join '' '' current_entity]
          else entities)"

text \<open>
  The words the loop keeps: a cleaned word that is capitalised and whose lowercase form
  is no question word.
\<close>

definition qualifies :: "string \<Rightarrow> bool" where
  "qualifies w = (capitalised w \<and> str_lower w \<notin> set question_words)"

text \<open>The cleaned words of a question, in order (those that clean to nothing included).\<close>

definition question_tokens :: "string \<Rightarrow> string list" where
  "question_tokens question = map clean_word (str_split question)"

text \<open>
  The same loop over the cleaned words, keeping each entity as its list of words
  (before \<open>' '.join\<close>) and closing the last one at the end; the proofs go through
  it.
\<close>

fun group_loop :: "string list \<Rightarrow> string list list \<Rightarrow> string list \<Rightarrow> string list list" where
  "group_loop [] groups current = (if current \<noteq> [] then groups @ [current] else groups)"
| "group_loop (t # ts) groups current =
     (if qualifies t then group_loop ts groups (current @ [t])
      else if t = [] \<or> capitalised t then group_loop ts groups current
      else if current \<noteq> [] then group_loop ts (groups @ [current]) []
      else group_loop ts groups current)"

text \<open>
  The list \<open>xs\<close> cut at the elements that satisfy \<open>P\<close>: the runs between them, in
  order, empty runs included; the cutting elements themselves are dropped.
\<close>

fun split_on :: "('a \<Rightarrow> bool) \<Rightarrow> 'a list \<Rightarrow> 'a list list" where
  "split_on P [] = [[]]"
| "split_on P (x # xs) =
     (if P x then [] # split_on P xs
      else (case split_on P xs of [] \<Rightarrow> [[x]] | s # ss \<Rightarrow> (x # s) # ss))"

text \<open>
  A cleaned word that closes the current entity: it is not empty and not capitalised
  (the \<open>else\<close> branch of the loop).
\<close>

definition closes_phrase :: "string \<Rightarrow> bool" where
  "closes_phrase t = (t \<noteq> [] \<and> \<not> capitalised t)"

text \<open>
  The phrases of a list of cleaned words: the words are cut at the closing words, each
  run keeps its qualifying words, and every run that keeps one is joined with single
  spaces.
\<close>

definition phrases_of :: "string list \<Rightarrow> string list" where
  "phrases_of ts =
     map (str_join '' '')
       (filter (\<lambda>g. g \<noteq> []) (map (filter qualifies) (split_on closes_phrase ts)))"

text \<open>
  What claim C9 describes, after its own words: the maximal runs of consecutive
  qualifying words, each joined with single spaces.
\<close>

definition consecutive_phrases :: "string list \<Rightarrow> string list" where
  "consecutive_phrases ts =
     map (str_join '' '')
       (filter (\<lambda>g. g \<noteq> []) (split_on (\<lambda>t. \<not> qualifies t) ts))"


section \<open>The query engine: from a question to a Cypher query\<close>

text \<open>\<open>re.escape\<close> (CPython 3.7 and later) on the code points 0 to 255.\<close>

definition re_special :: "char \<Rightarrow> bool" where
  "re_special c =
     (code_in c 0x09 0x0D \<or> c \<in> set '' #$&()*+-.?[]^{|}~'' \<or> c = CHR 0x5C)"

definition re_escape :: "string \<Rightarrow> string" where
  "re_escape s = concat (map (\<lambda>c. if re_special c then [CHR 0x5C, c] else [c]) s)"

text \<open>\<open>'|'.join([f'(?i).*{re.escape(e)}.*' for e in entities])\<close>.\<close>

definition entity_pattern_of :: "string list \<Rightarrow> string" where
  "entity_pattern_of entities =
     str_join ''|'' (map (\<lambda>e. ''(?i).*'' @ re_escape e @ ''.*'') entities)"

text \<open>The query texts, character for character as the source's string literals.\<close>

definition founder_query :: "string \<Rightarrow> string" where
  "founder_query entity_pattern =
     ''\<newline>'' @
     ''                MATCH path = (target:Entity)-[r]->(person:Entity)\<newline>'' @
     ''                WHERE r.valid_to IS NULL\<newline>'' @
     ''                  AND (type(r) =~ '.*FOUND.*' OR type(r) =~ '.*CREAT.*' OR type(r) =~ '.*START.*')\<newline>'' @
     ''                  AND (target.name =~ '' @ [CHR 0x27] @
     entity_pattern @
     [CHR 0x27] @ '')\<newline>'' @
     ''                RETURN person.name AS person,\<newline>'' @
     ''                       type(r) AS relation,\<newline>'' @
     ''                       target.name AS company,\<newline>'' @
     ''                       r.confidence AS confidence,\<newline>'' @
     ''                       [node in nodes(path) | node.name] AS path_nodes\<newline>'' @
     ''                LIMIT 1\<newline>'' @
     ''                ''"

definition about_query :: "string \<Rightarrow> string" where
  "about_query entity_pattern =
     ''\<newline>'' @
     ''                MATCH path = (source:Entity)-[r]->(target:Entity)\<newline>'' @
     ''                WHERE r.valid_to IS NULL\<newline>'' @
     ''                  AND (source.name =~ '' @ [CHR 0x27] @
     entity_pattern @
     [CHR 0x27] @ '' OR target.name =~ '' @ [CHR 0x27] @
     entity_pattern @
     [CHR 0x27] @ '')\<newline>'' @
     ''                RETURN source.name AS source,\<newline>'' @
     ''                       type(r) AS relation,\<newline>'' @
     ''                       target.name AS target,\<newline>'' @
     ''                       r.confidence AS confidence,\<newline>'' @
     ''                       [node in nodes(path) | node.name] AS path_nodes\<newline>'' @
     ''                LIMIT 5\<newline>'' @
     ''                ''"

definition price_query :: string where
  "price_query =
     ''\<newline>'' @
     ''            MATCH path = (product:Entity)-[r]->(price:Entity)\<newline>'' @
     ''            WHERE r.valid_to IS NULL\<newline>'' @
     ''              AND (type(r) =~ '.*COST.*' OR type(r) =~ '.*PRICE.*')\<newline>'' @
     ''            RETURN product.name AS product,\<newline>'' @
     ''                   price.name AS price,\<newline>'' @
     ''                   r.confidence AS confidence,\<newline>'' @
     ''                   r.source_url AS source,\<newline>'' @
     ''                   [node in nodes(path) | node.name] AS path_nodes\<newline>'' @
     ''            LIMIT 1\<newline>'' @
     ''            ''"

definition leader_query :: string where
  "leader_query =
     ''\<newline>'' @
     ''            MATCH path = (person:Entity)-[r]->(company:Entity)\<newline>'' @
     ''            WHERE r.valid_to IS NULL\<newline>'' @
     ''              AND (type(r) =~ '.*CEO.*' OR type(r) =~ '.*FOUND.*')\<newline>'' @
     ''            RETURN person.name AS person,\<newline>'' @
     ''                   type(r) AS relation,\<newline>'' @
     ''                   company.name AS company,\<newline>'' @
     ''                   r.confidence AS confidence,\<newline>'' @
     ''                   [node in nodes(path) | node.name] AS path_nodes\<newline>'' @
     ''            LIMIT 1\<newline>'' @
     ''            ''"

definition changed_query :: string where
  "changed_query =
     ''\<newline>'' @
     ''            MATCH path = (source:Entity)-[r]->(target:Entity)\<newline>'' @
     ''            WHERE r.valid_to IS NOT NULL\<newline>'' @
     ''            RETURN source.name AS source,\<newline>'' @
     ''                   type(r) AS relation,\<newline>'' @
     ''                   target.name AS target,\<newline>'' @
     ''                   r.valid_from AS from_date,\<newline>'' @
     ''                   r.valid_to AS to_date,\<newline>'' @
     ''                   [node in nodes(path) | node.name] AS path_nodes\<newline>'' @
     ''            ORDER BY r.valid_to DESC\<newline>'' @
     ''            LIMIT 5\<newline>'' @
     ''            ''"

definition default_query :: string where
  "default_query =
     ''\<newline>'' @
     ''            MATCH path = (source:Entity)-[r]->(target:Entity)\<newline>'' @
     ''            WHERE r.valid_to IS NULL\<newline>'' @
     ''            RETURN source.name AS source,\<newline>'' @
     ''                   type(r) AS relation,\<newline>'' @
     ''                   target.name AS target,\<newline>'' @
     ''                   r.confidence AS confidence,\<newline>'' @
     ''                   [node in nodes(path) | node.name] AS path_nodes\<newline>'' @
     ''            ORDER BY rand()\<newline>'' @
     ''            LIMIT 5\<newline>'' @
     ''            ''"

definition generate_cypher_from_question :: "string \<Rightarrow> string" where
  "generate_cypher_from_question question =
     (let question_lower = str_lower question;
          entities = extract_entities_from_question question;
          entity_pattern = entity_pattern_of entities
      in
      if entities \<noteq> [] \<and> str_contains ''who'' question_lower \<and>
         (str_contains ''founded'' question_lower \<or> str_contains ''created'' question_lower \<or>
          str_contains ''started'' question_lower)
      then founder_query entity_pattern
      else if entities \<noteq> [] \<and>
         (str_contains ''what'' question_lower \<or> str_contains ''tell'' question_lower \<or>
          str_contains ''about'' question_lower)
      then about_query entity_pattern
      else if str_contains ''how much'' question_lower \<or> str_contains ''cost'' question_lower \<or>
         str_contains ''price'' question_lower
      then price_query
      else if str_contains ''who'' question_lower \<and>
         (str_contains ''ceo'' question_lower \<or> str_contains ''founder'' question_lower)
      then leader_query
      else if str_contains ''what'' question_lower \<and> str_contains ''changed'' question_lower
      then changed_query
      else default_query)"


section \<open>The query engine: running the query and formatting the answer\<close>

text \<open>
  The values of a result record: a string, \<open>None\<close>, a list, or any other value (a
  number, a boolean, a temporal value), given by the name of its Python type and the
  text \<open>str()\<close> gives for it.
\<close>

datatype pyval = PStr string | PNone | PList "pyval list" | PObj string string

text \<open>
  \<open>repr\<close> of a string: in double quotes when the string holds a single quote and no
  double quote, in single quotes otherwise; the backslash and the chosen quote are
  escaped, tab, newline and carriage return are written \<open>\t\<close>, \<open>\n\<close>, \<open>\r\<close>, and
  any other character that \<open>str.isprintable\<close> rejects is written \<open>\xNN\<close>.
\<close>

definition char_isprintable :: "char \<Rightarrow> bool" where
  "char_isprintable c = (code_in c 0x20 0x7E \<or> code_in c 0xA1 0xAC \<or> code_in c 0xAE 0xFF)"

definition repr_char :: "char \<Rightarrow> char \<Rightarrow> string" where
  "repr_char quote c =
     (if c = CHR 0x5C then [CHR 0x5C, CHR 0x5C]
      else if c = quote then [CHR 0x5C, quote]
      else if c = CHR 0x09 then [CHR 0x5C, CHR ''t'']
      else if c = CHR 0x0A then [CHR 0x5C, CHR ''n'']
      else if c = CHR 0x0D then [CHR 0x5C, CHR ''r'']
      else if char_isprintable c then [c]
      else [CHR 0x5C, CHR ''x''] @ hex_byte c)"

definition repr_str :: "string \<Rightarrow> string" where
  "repr_str s =
     (let quote = (if CHR 0x27 \<in> set s \<and> CHR 0x22 \<notin> set s then CHR 0x22 else CHR 0x27)
      in [quote] @ concat (map (repr_char quote) s) @ [quote])"

text \<open>
  \<open>repr\<close> and \<open>str\<close> of a value. For a value of another type the text given for
  \<open>str()\<close> is taken for its \<open>repr\<close> too, as it is for numbers and booleans.
\<close>

fun py_repr :: "pyval \<Rightarrow> string" where
  "py_repr (PStr s) = repr_str s"
| "py_repr PNone = ''None''"
| "py_repr (PList xs) = ''['' @ str_join '', '' (map py_repr xs) @ '']''"
| "py_repr (PObj ty txt) = txt"

definition py_str :: "pyval \<Rightarrow> string" where
  "py_str v = (case v of PStr s \<Rightarrow> s | _ \<Rightarrow> py_repr v)"

definition type_name :: "pyval \<Rightarrow> string" where
  "type_name v =
     (case v of PStr _ \<Rightarrow> ''str'' | PNone \<Rightarrow> ''NoneType'' | PList _ \<Rightarrow> ''list''
      | PObj ty _ \<Rightarrow> ty)"

text \<open>
  An exception is the text \<open>str(e)\<close> gives for it; a computation that may raise
  returns \<open>Inl\<close> of that text. \<open>v.lower()\<close> raises AttributeError unless \<open>v\<close> is a
  string, \<open>len(v)\<close> raises TypeError unless \<open>v\<close> is a string or a list.
\<close>

definition py_lower :: "pyval \<Rightarrow> string + string" where
  "py_lower v =
     (case v of PStr s \<Rightarrow> Inr (str_lower s)
      | _ \<Rightarrow> Inl ([CHR 0x27] @ type_name v @ [CHR 0x27] @ '' object has no attribute 'lower'' @ [CHR 0x27]))"

definition py_len :: "pyval \<Rightarrow> string + nat" where
  "py_len v =
     (case v of PStr s \<Rightarrow> Inr (length s) | PList xs \<Rightarrow> Inr (length xs)
      | _ \<Rightarrow> Inl (''object of type '' @ [CHR 0x27] @ type_name v @ [CHR 0x27] @ '' has no len()''))"

text \<open>\<open>s.replace(old, new)\<close> for a non-empty \<open>old\<close>.\<close>

function str_replace :: "string \<Rightarrow> string \<Rightarrow> string \<Rightarrow> string" where
  "str_replace old new [] = []"
| "str_replace old new (c # cs) =
     (if old \<noteq> [] \<and> prefix old (c # cs)
      then new @ str_replace old new (drop (length old) (c # cs))
      else c # str_replace old new cs)"
  by pat_completeness auto
termination
  by (relation "measure (\<lambda>(old, new, s). length s)") auto

text \<open>A result record of the graph driver, and \<open>record.get(key, default)\<close>.\<close>

type_synonym row = "(string \<times> pyval) list"

definition record_get :: "row \<Rightarrow> string \<Rightarrow> pyval \<Rightarrow> pyval" where
  "record_get r key dflt = (case map_of r key of Some v \<Rightarrow> v | None \<Rightarrow> dflt)"

text \<open>\<open>relation.lower().replace('_', ' ')\<close>.\<close>

definition relation_words :: "pyval \<Rightarrow> string + string" where
  "relation_words relation =
     (case py_lower relation of Inl e \<Rightarrow> Inl e | Inr l \<Rightarrow> Inr (str_replace ''_'' '' '' l))"

text \<open>The loop of the change branch of \<open>_format_answer\<close> over \<open>records[:3]\<close>.\<close>

fun change_lines :: "row list \<Rightarrow> string + string list" where
  "change_lines [] = Inr []"
| "change_lines (record # records) =
     (let source = record_get record ''source'' (PStr ''Unknown'');
          relation = record_get record ''relation'' (PStr ''relates to'');
          target = record_get record ''target'' (PStr ''Unknown'');
          to_date = record_get record ''to_date'' (PStr ''recently'')
      in case relation_words relation of
           Inl e \<Rightarrow> Inl e
         | Inr rel \<Rightarrow>
            (case change_lines records of
               Inl e \<Rightarrow> Inl e
             | Inr changes \<Rightarrow>
                Inr ((py_str source @ '' '' @ rel @ '' '' @ py_str target @
                      '' (changed '' @ py_str to_date @ '')'') # changes)))"

definition format_answer :: "string \<Rightarrow> row list \<Rightarrow> string + string" where
  "format_answer question records =
     (case records of
        [] \<Rightarrow> Inr ''I don't have enough information to answer that question.''
      | first_record # _ \<Rightarrow>
         (let question_lower = str_lower question in
          if str_contains ''how much'' question_lower \<or> str_contains ''cost'' question_lower \<or>
             str_contains ''price'' question_lower
          then
            (let product = record_get first_record ''product'' (PStr ''Unknown'');
                 price = record_get first_record ''price'' (PStr ''Unknown'')
             in Inr (py_str product @ '' costs '' @ py_str price @ ''.''))
          else if str_contains ''who'' question_lower \<and>
             (str_contains ''ceo'' question_lower \<or> str_contains ''founder'' question_lower \<or>
              str_contains ''founded'' question_lower)
          then
            (let person = record_get first_record ''person'' (PStr ''Unknown'');
                 relation = record_get first_record ''relation'' (PStr ''is associated with'');
                 company = record_get first_record ''company'' (PStr ''Unknown'')
             in case relation_words relation of
                  Inl e \<Rightarrow> Inl e
                | Inr relation_clean \<Rightarrow>
                   Inr (py_str person @ '' '' @
                        (if str_contains ''by'' relation_clean
                         then str_replace '' by'' [] relation_clean else relation_clean) @
                        '' '' @ py_str company @ ''.''))
          else if str_contains ''what'' question_lower \<and> str_contains ''changed'' question_lower
          then
            (case change_lines (take 3 records) of
               Inl e \<Rightarrow> Inl e
             | Inr changes \<Rightarrow>
                Inr (''Recent changes:\<newline>'' @
                     str_join ''\<newline>'' (map (\<lambda>change. ''- '' @ change) changes)))
          else
            (let source = record_get first_record ''source'' (PStr ''Unknown'');
                 relation = record_get first_record ''relation'' (PStr ''relates to'');
                 target = record_get first_record ''target'' (PStr ''Unknown'')
             in case relation_words relation of
                  Inl e \<Rightarrow> Inl e
                | Inr rel \<Rightarrow> Inr (py_str source @ '' '' @ rel @ '' '' @ py_str target @ ''.''))))"

text \<open>
  The dictionary \<open>execute_query_with_path\<close> returns: the keys \<open>answer\<close>, \<open>path\<close> and
  \<open>results\<close>, and the key \<open>cypher_query\<close> when it is present.
\<close>

record query_response =
  answer :: string
  path :: pyval
  results :: "row list"
  cypher_query :: "string option"

text \<open>
  The graph driver is a parameter: \<open>run_query\<close> opens a session, runs the query text
  and lists the records, or raises. \<open>query_try\<close> is the body of the \<open>try\<close> block of
  \<open>execute_query_with_path\<close>; the \<open>timestamp\<close> argument is not used in it.
\<close>

definition query_try :: "(string \<Rightarrow> string + row list) \<Rightarrow> string \<Rightarrow> string option \<Rightarrow> string + query_response" where
  "query_try run_query question timestamp =
     (let cypher_query = generate_cypher_from_question question in
      case run_query cypher_query of
        Inl e \<Rightarrow> Inl e
      | Inr records \<Rightarrow>
         (case records of
            [] \<Rightarrow>
              Inr \<lparr>answer = ''No results found.'', path = PList [], results = [],
                   cypher_query = None\<rparr>
          | first_record # _ \<Rightarrow>
             (let path_nodes = record_get first_record ''path_nodes'' (PList []) in
              case format_answer question records of
                Inl e \<Rightarrow> Inl e
              | Inr answer_text \<Rightarrow>
                 (case py_len path_nodes of
                    Inl e \<Rightarrow> Inl e
                  | Inr path_length \<Rightarrow>
                     Inr \<lparr>answer = answer_text, path = path_nodes, results = records,
                          cypher_query = Some cypher_query\<rparr>))))"

text \<open>The \<open>except Exception\<close> handler around it.\<close>

definition execute_query_with_path :: "(string \<Rightarrow> string + row list) \<Rightarrow> string \<Rightarrow> string option \<Rightarrow> query_response" where
  "execute_query_with_path run_query question timestamp =
     (case query_try run_query question timestamp of
        Inl e \<Rightarrow>
          \<lparr>answer = ''Error: '' @ e, path = PList [], results = [], cypher_query = None\<rparr>
      | Inr response \<Rightarrow> response)"


section \<open>The HTTP facade: ingest\<close>

text \<open>
  The global \<open>system_status\<close> dictionary, the global \<open>sentinel_agent\<close> and everything
  the agent can reach (scraper, extractor, graph store), the latter as a state of type
  \<open>'w\<close>. The agent is given by its \<open>process_url\<close>, which returns a result dictionary or
  raises.
\<close>

record system_status =
  state :: string
  message :: string
  last_update :: string

datatype http_exception = HTTPException nat string

record 'w app =
  sentinel_agent :: "(string \<Rightarrow> 'w \<Rightarrow> (string + row) \<times> 'w) option"
  status :: system_status
  world :: 'w

text \<open>\<open>update_status\<close>; \<open>utcnow\<close> reads \<open>datetime.utcnow().isoformat()\<close> off the world.\<close>

definition update_status :: "('w \<Rightarrow> string) \<Rightarrow> string \<Rightarrow> string \<Rightarrow> 'w app \<Rightarrow> 'w app" where
  "update_status utcnow st msg a =
     a\<lparr>status := \<lparr>state = st, message = msg, last_update = utcnow (world a)\<rparr>\<rparr>"

definition ingest_url :: "('w \<Rightarrow> string) \<Rightarrow> string \<Rightarrow> 'w app \<Rightarrow> (http_exception + row) \<times> 'w app" where
  "ingest_url utcnow url a =
     (case sentinel_agent a of
        None \<Rightarrow> (Inl (HTTPException 503 ''Sentinel agent not initialized''), a)
      | Some agent \<Rightarrow>
         (let a1 = update_status utcnow ''Processing'' (''Processing '' @ url @ ''...'') a in
          case agent url (world a1) of
            (Inl e, w) \<Rightarrow>
              (Inl (HTTPException 500 e),
               update_status utcnow ''Error'' (''Failed: '' @ e) (a1\<lparr>world := w\<rparr>))
          | (Inr result, w) \<Rightarrow>
             (let a2 = a1\<lparr>world := w\<rparr>;
                  st = map_of result ''status''
              in if st = Some (PStr ''success'') then
                   (Inr result,
                    update_status utcnow ''Idle''
                      (''Successfully processed '' @ url @ ''. Extracted '' @
                       py_str (record_get result ''extracted_nodes'' (PObj ''int'' ''0'')) @
                       '' nodes.'') a2)
                 else if st = Some (PStr ''unchanged_verified'') then
                   (Inr result,
                    update_status utcnow ''Idle''
                      (''Content unchanged for '' @ url @ ''. Verified existing data.'') a2)
                 else
                   (Inr result,
                    update_status utcnow ''Idle''
                      (''Processed '' @ url @ '' with status: '' @
                       py_str (case st of None \<Rightarrow> PNone | Some v \<Rightarrow> v)) a2))))"


section \<open>The temporal graph store\<close>

text \<open>
  The store (\<open>sentinel_core.graph_store\<close>), its data model (\<open>sentinel_core.models\<close>)
  and the orchestrator (\<open>sentinel_core.orchestrator\<close>) are imported by the sources but
  are not among them. The definitions of this section and of the next follow the
  specification's sections 3, 4.1 and 4.4.1 instead. An instant is a number of
  microseconds since the epoch.
\<close>

type_synonym instant = int

text \<open>
  Modelled from the spec: the scalar values of a property map, "strings, numbers,
  booleans" (section 3), and the property map itself.
\<close>

datatype scalar = SStr string | SNum int | SBool bool

type_synonym props = "(string \<times> scalar) list"

text \<open>
  Modelled from the spec: the entity (section 3), with its identity \<open>id\<close>, its label and
  its property map.
\<close>

record entity =
  entity_id :: string
  label :: string
  entity_properties :: props

text \<open>
  Modelled from the spec: the proposed edge of a bundle (the model class
  \<open>TemporalEdge\<close>): endpoints, relation, property map, \<open>valid_from\<close> and confidence.
\<close>

record temporal_edge =
  source :: string
  target :: string
  relation :: string
  properties :: props
  valid_from :: instant
  confidence :: real

text \<open>
  Modelled from the spec: the edge as the store holds it (section 3): the proposed
  edge's fields, its content hash, and the bitemporal and provenance attributes.
  \<open>valid_to = None\<close> is the spec's \<open>\<bottom>\<close>.
\<close>

record stored_edge = temporal_edge +
  content_hash :: string
  valid_to :: "instant option"
  last_verified :: instant
  verification_count :: nat
  source_url :: string

text \<open>Modelled from the spec: the bundle (section 4.1), entities and proposed edges (the
  model class \<open>GraphData\<close>).\<close>

record graph_data =
  nodes :: "entity list"
  edges :: "temporal_edge list"

text \<open>Modelled from the spec: the document state (section 3), keyed by source URL.\<close>

record document_state =
  document_hash :: string
  last_checked :: instant

text \<open>Modelled from the spec: the three kinds of records the store owns (section 3).\<close>

record store =
  store_nodes :: "entity list"
  store_edges :: "stored_edge list"
  documents :: "(string \<times> document_state) list"

text \<open>Modelled from the spec: the counts \<open>upsert_bundle\<close> returns (section 4.1).\<close>

record upsert_stats =
  nodes_created :: nat
  nodes_updated :: nat
  edges_created :: nat
  edges_verified :: nat
  edges_invalidated :: nat

text \<open>
  Modelled from the spec: the edge content hash \<open>compute_hash\<close>,
  \<open>H = SHA256(source \<parallel> relation \<parallel> target \<parallel> canonical_json(properties))\<close>. SHA-256
  (hashlib) and the canonical JSON encoder are parameters.
\<close>

definition compute_hash :: "(string \<Rightarrow> string) \<Rightarrow> (props \<Rightarrow> string) \<Rightarrow> 'a temporal_edge_scheme \<Rightarrow> string" where
  "compute_hash sha256 canonical_json e =
     sha256 (source e @ relation e @ target e @ canonical_json (properties e))"

text \<open>Modelled from the spec: a live edge is one whose \<open>valid_to\<close> is \<open>\<bottom>\<close> (glossary).\<close>

definition live :: "stored_edge \<Rightarrow> bool" where
  "live e = (valid_to e = None)"

text \<open>
  Modelled from the spec: "between the same (source, relation, target)" of
  \<open>upsert_bundle\<close>, step 2.
\<close>

definition same_triple :: "temporal_edge \<Rightarrow> stored_edge \<Rightarrow> bool" where
  "same_triple p e = (source e = source p \<and> relation e = relation p \<and> target e = target p)"

text \<open>
  Modelled from the spec: the edge created in cases B and C of \<open>upsert_bundle\<close>:
  \<open>H(e)\<close>, \<open>valid_from = now\<close>, \<open>valid_to = \<bottom>\<close>, \<open>last_verified = now\<close>,
  \<open>verification_count = 1\<close>.
\<close>

definition new_edge :: "(temporal_edge \<Rightarrow> string) \<Rightarrow> instant \<Rightarrow> string \<Rightarrow> temporal_edge \<Rightarrow> stored_edge" where
  "new_edge H now url p =
     \<lparr>source = source p, target = target p, relation = relation p,
      properties = properties p, valid_from = now, confidence = confidence p,
      content_hash = H p, valid_to = None, last_verified = now, verification_count = 1,
      source_url = url\<rparr>"

text \<open>
  Modelled from the spec: case A of \<open>upsert_bundle\<close> on one stored edge: "update only
  \<open>last_verified = now\<close>, increment \<open>verification_count\<close>, refresh \<open>source_url\<close>".
\<close>

definition verify_edge :: "instant \<Rightarrow> string \<Rightarrow> stored_edge \<Rightarrow> stored_edge" where
  "verify_edge now url e =
     e\<lparr>last_verified := now, verification_count := Suc (verification_count e),
       source_url := url\<rparr>"

text \<open>Modelled from the spec: case B's "close it: set its \<open>valid_to = now\<close>".\<close>

definition close_edge :: "instant \<Rightarrow> stored_edge \<Rightarrow> stored_edge" where
  "close_edge now e = e\<lparr>valid_to := Some now\<rparr>"

text \<open>
  Modelled from the spec: the MERGE-on-write rule of section 3, which (re)creates any
  entity an edge refers to; a node so created has the graph label \<open>Entity\<close> (section 6)
  and no properties.
\<close>

definition ensure_node :: "string \<Rightarrow> entity list \<Rightarrow> entity list" where
  "ensure_node i ns =
     (if list_ex (\<lambda>n. entity_id n = i) ns then ns
      else ns @ [\<lparr>entity_id = i, label = ''Entity'', entity_properties = []\<rparr>])"

text \<open>
  Modelled from the spec: the union of two property maps, "new values overwrite
  matching keys" (section 4.1).
\<close>

definition union_props :: "props \<Rightarrow> props \<Rightarrow> props" where
  "union_props old new = filter (\<lambda>(k, v). map_of new k = None) old @ new"

text \<open>
  Modelled from the spec: "for each entity in the bundle, MERGE on \<open>id\<close>, union
  property maps". The counts are carried along; the label of an entity that exists
  is kept.
\<close>

definition merge_entity :: "entity \<Rightarrow> store \<times> upsert_stats \<Rightarrow> store \<times> upsert_stats" where
  "merge_entity n = (\<lambda>(st, stats).
     if list_ex (\<lambda>m. entity_id m = entity_id n) (store_nodes st)
     then (st\<lparr>store_nodes :=
                map (\<lambda>m. if entity_id m = entity_id n
                          then m\<lparr>entity_properties :=
                                   union_props (entity_properties m) (entity_properties n)\<rparr>
                          else m) (store_nodes st)\<rparr>,
           stats\<lparr>nodes_updated := Suc (nodes_updated stats)\<rparr>)
     else (st\<lparr>store_nodes := store_nodes st @ [n]\<rparr>,
           stats\<lparr>nodes_created := Suc (nodes_created stats)\<rparr>))"

text \<open>
  Modelled from the spec: the steps 1 to 5 of \<open>upsert_bundle\<close> for one proposed edge
  (section 4.1). \<open>H\<close> is the content hash of a proposed edge. Case A: a live edge
  between the same endpoints has the hash \<open>H p\<close>. Case B: live edges between the same
  endpoints exist, none with that hash; they are closed and a new edge is created.
  Case C: no live edge between these endpoints.
\<close>

definition upsert_edge :: "(temporal_edge \<Rightarrow> string) \<Rightarrow> instant \<Rightarrow> string \<Rightarrow> temporal_edge \<Rightarrow> store \<times> upsert_stats \<Rightarrow> store \<times> upsert_stats" where
  "upsert_edge H now url p = (\<lambda>(st, stats).
     (let h = H p;
          live_edges = filter (\<lambda>e. live e \<and> same_triple p e) (store_edges st);
          st1 = st\<lparr>store_nodes := ensure_node (target p) (ensure_node (source p) (store_nodes st))\<rparr>
      in
      if list_ex (\<lambda>e. content_hash e = h) live_edges then
        (st1\<lparr>store_edges :=
               map (\<lambda>e. if live e \<and> same_triple p e \<and> content_hash e = h
                         then verify_edge now url e else e) (store_edges st)\<rparr>,
         stats\<lparr>edges_verified := Suc (edges_verified stats)\<rparr>)
      else if live_edges \<noteq> [] then
        (st1\<lparr>store_edges :=
               map (\<lambda>e. if live e \<and> same_triple p e then close_edge now e else e)
                 (store_edges st) @ [new_edge H now url p]\<rparr>,
         stats\<lparr>edges_invalidated := edges_invalidated stats + length live_edges,
               edges_created := Suc (edges_created stats)\<rparr>)
      else
        (st1\<lparr>store_edges := store_edges st @ [new_edge H now url p]\<rparr>,
         stats\<lparr>edges_created := Suc (edges_created stats)\<rparr>)))"

text \<open>
  Modelled from the spec: \<open>upsert_bundle(bundle, source_url)\<close> at the single instant
  \<open>now\<close>: the entities first, then the proposed edges in arrival order.
\<close>

definition upsert_bundle :: "(temporal_edge \<Rightarrow> string) \<Rightarrow> instant \<Rightarrow> graph_data \<Rightarrow> string \<Rightarrow> store \<Rightarrow> upsert_stats \<times> store" where
  "upsert_bundle H now b url st =
     (case fold (upsert_edge H now url) (edges b)
             (fold merge_entity (nodes b)
                (st, \<lparr>nodes_created = 0, nodes_updated = 0, edges_created = 0,
                      edges_verified = 0, edges_invalidated = 0\<rparr>)) of
        (st', stats) \<Rightarrow> (stats, st'))"

text \<open>
  Modelled from the spec: the edges \<open>snapshot_at(t)\<close> returns, those with
  \<open>valid_from \<le> t AND (valid_to = \<bottom> OR valid_to > t)\<close>.
\<close>

definition valid_at :: "instant \<Rightarrow> stored_edge \<Rightarrow> bool" where
  "valid_at t e =
     (valid_from e \<le> t \<and> (case valid_to e of None \<Rightarrow> True | Some c \<Rightarrow> t < c))"

text \<open>Modelled from the spec: "all edges for which" that condition holds at \<open>t\<close>.\<close>

definition edges_at :: "instant \<Rightarrow> store \<Rightarrow> stored_edge list" where
  "edges_at t st = filter (valid_at t) (store_edges st)"

text \<open>
  Modelled from the spec: the return format of \<open>snapshot_at\<close>: a link per valid edge
  (source, target, relation, confidence, provenance, \<open>valid_from\<close>, \<open>valid_to\<close>), and
  a node per entity that is an endpoint of one, with its degree as weight.
\<close>

record link =
  link_source :: string
  link_target :: string
  link_relation :: string
  link_confidence :: real
  provenance :: string
  link_valid_from :: instant
  link_valid_to :: "instant option"

record snapshot_node =
  node_id :: string
  node_label :: string
  weight :: nat

record snapshot =
  snapshot_nodes :: "snapshot_node list"
  links :: "link list"
  snapshot_timestamp :: instant

text \<open>Modelled from the spec: the link a valid edge is returned as.\<close>

definition link_of :: "stored_edge \<Rightarrow> link" where
  "link_of e =
     \<lparr>link_source = source e, link_target = target e, link_relation = relation e,
      link_confidence = confidence e, provenance = source_url e,
      link_valid_from = valid_from e, link_valid_to = valid_to e\<rparr>"

text \<open>
  Modelled from the spec: the degree of an entity among the valid edges, its weight in
  the snapshot.
\<close>

definition degree :: "stored_edge list \<Rightarrow> string \<Rightarrow> nat" where
  "degree es i = length (filter (\<lambda>e. source e = i) es) + length (filter (\<lambda>e. target e = i) es)"

text \<open>Modelled from the spec: \<open>snapshot_at(t?)\<close>; \<open>t\<close> defaults to \<open>now\<close>.\<close>

definition snapshot_at :: "instant \<Rightarrow> instant option \<Rightarrow> store \<Rightarrow> snapshot" where
  "snapshot_at now t st =
     (let instant_t = (case t of None \<Rightarrow> now | Some t' \<Rightarrow> t');
          es = edges_at instant_t st
      in \<lparr>snapshot_nodes =
             map (\<lambda>n. \<lparr>node_id = entity_id n, node_label = label n,
                        weight = degree es (entity_id n)\<rparr>)
               (filter (\<lambda>n. 0 < degree es (entity_id n)) (store_nodes st)),
           links = map link_of es,
           snapshot_timestamp = instant_t\<rparr>)"

text \<open>Modelled from the spec: the length of a day, for \<open>now - days_threshold\<close>.\<close>

definition day :: int where
  "day = 86400000000"

text \<open>
  Modelled from the spec: a live edge with \<open>last_verified < now - days_threshold\<close>,
  and a fresh one, a live edge verified at or after that cutoff.
\<close>

definition stale_edge :: "instant \<Rightarrow> stored_edge \<Rightarrow> bool" where
  "stale_edge cutoff e = (live e \<and> last_verified e < cutoff)"

definition fresh_edge :: "instant \<Rightarrow> stored_edge \<Rightarrow> bool" where
  "fresh_edge cutoff e = (live e \<and> cutoff \<le> last_verified e)"

text \<open>
  Modelled from the spec: \<open>find_stale(days_threshold)\<close> (\<open>find_stale_nodes\<close> in the
  tests): the distinct source URLs of live edges with
  \<open>last_verified < now - days_threshold\<close>, where "a URL with any fresh edge is not
  stale".
\<close>

definition find_stale :: "instant \<Rightarrow> int \<Rightarrow> store \<Rightarrow> string list" where
  "find_stale now days_threshold st =
     (let cutoff = now - days_threshold * day in
      remdups
        (map source_url
           (filter (\<lambda>e. stale_edge cutoff e \<and>
                        \<not> list_ex (\<lambda>f. fresh_edge cutoff f \<and> source_url f = source_url e)
                             (store_edges st))
              (store_edges st))))"

text \<open>
  Modelled from the spec: \<open>mark_verified(source_url)\<close>: "for every live edge with this
  \<open>source_url\<close>, set \<open>last_verified = now\<close> and increment \<open>verification_count\<close>.
  Returns the number of edges touched."
\<close>

definition mark_verified :: "instant \<Rightarrow> string \<Rightarrow> store \<Rightarrow> nat \<times> store" where
  "mark_verified now url st =
     (length (filter (\<lambda>e. live e \<and> source_url e = url) (store_edges st)),
      st\<lparr>store_edges :=
           map (\<lambda>e. if live e \<and> source_url e = url
                     then e\<lparr>last_verified := now,
                            verification_count := Suc (verification_count e)\<rparr>
                     else e) (store_edges st)\<rparr>)"

text \<open>
  Modelled from the spec: \<open>get_document_state(source_url)\<close>, the stored content hash
  or \<open>\<bottom>\<close>.
\<close>

definition get_document_state :: "store \<Rightarrow> string \<Rightarrow> string option" where
  "get_document_state st url = map_option document_hash (map_of (documents st) url)"

text \<open>
  Modelled from the spec: \<open>set_document_state(source_url, content_hash)\<close>: the most
  recent content hash and the \<open>last_checked\<close> instant, inserted or updated.
\<close>

definition set_document_state :: "instant \<Rightarrow> string \<Rightarrow> string \<Rightarrow> store \<Rightarrow> store" where
  "set_document_state now url h st =
     st\<lparr>documents :=
          (url, \<lparr>document_hash = h, last_checked = now\<rparr>) #
          filter (\<lambda>(u, d). u \<noteq> url) (documents st)\<rparr>"


section \<open>The healing orchestrator\<close>

text \<open>
  Modelled from the spec: the terminal states of \<open>process_url\<close> (section 4.4.1) that
  the state machine's diagram reaches.
\<close>

datatype process_status = Success | UnchangedVerified | NoFacts | ScrapeFailed

text \<open>
  Modelled from the spec: the plain record \<open>process_url\<close> returns,
  \<open>{status, url, ...stats or error}\<close>.
\<close>

record process_result =
  result_status :: process_status
  result_url :: string
  edges_updated :: nat
  upsert_counts :: "upsert_stats option"
  error :: "string option"

text \<open>
  The calls \<open>process_url\<close> makes on its collaborators, in order, as the mocks of
  \<open>test_healing.py\<close> record them.
\<close>

datatype call =
  ScrapeAndHash string
| GetDocumentState string
| MarkVerified string
| SetDocumentState string string
| Extract string
| UpsertBundle string

text \<open>
  Modelled from the spec: the state machine of \<open>process_url(url)\<close> (section 4.4.1).
  The scraper returns the content and its hash or an error; the extractor returns a
  bundle. The result comes with the store it leaves and the calls it made.
\<close>

definition process_url :: "(temporal_edge \<Rightarrow> string) \<Rightarrow> (string \<Rightarrow> string + string \<times> string) \<Rightarrow> (string \<Rightarrow> graph_data) \<Rightarrow> instant \<Rightarrow> string \<Rightarrow> store \<Rightarrow> process_result \<times> store \<times> call list" where
  "process_url H scrape_and_hash extract now url st =
     (case scrape_and_hash url of
        Inl e \<Rightarrow>
          (\<lparr>result_status = ScrapeFailed, result_url = url, edges_updated = 0,
            upsert_counts = None, error = Some e\<rparr>, st, [ScrapeAndHash url])
      | Inr (content, h) \<Rightarrow>
         (if get_document_state st url = Some h then
            (case mark_verified now url st of
               (n, st1) \<Rightarrow>
                 (\<lparr>result_status = UnchangedVerified, result_url = url, edges_updated = n,
                   upsert_counts = None, error = None\<rparr>,
                  set_document_state now url h st1,
                  [ScrapeAndHash url, GetDocumentState url, MarkVerified url,
                   SetDocumentState url h]))
          else
            (let b = extract content in
             if nodes b = [] \<and> edges b = [] then
               (\<lparr>result_status = NoFacts, result_url = url, edges_updated = 0,
                 upsert_counts = None, error = None\<rparr>,
                set_document_state now url h st,
                [ScrapeAndHash url, GetDocumentState url, Extract content,
                 SetDocumentState url h])
             else
               (case upsert_bundle H now b url st of
                  (stats, st1) \<Rightarrow>
                    (\<lparr>result_status = Success, result_url = url, edges_updated = 0,
                      upsert_counts = Some stats, error = None\<rparr>,
                     set_document_state now url h st1,
                     [ScrapeAndHash url, GetDocumentState url, Extract content,
                      UpsertBundle url, SetDocumentState url h])))))"


section \<open>Notions used to state the store's properties\<close>

text \<open>A link of a snapshot between the endpoints, and with the relation, of \<open>p\<close>.\<close>

definition link_between :: "temporal_edge \<Rightarrow> link \<Rightarrow> bool" where
  "link_between p l =
     (link_source l = source p \<and> link_relation l = relation p \<and> link_target l = target p)"

text \<open>
  A stored edge that a proposed edge matches exactly: live, between the same endpoints
  with the same relation, and with the proposed edge's content hash.
\<close>

definition matches :: "(temporal_edge \<Rightarrow> string) \<Rightarrow> temporal_edge \<Rightarrow> stored_edge \<Rightarrow> bool" where
  "matches H p e = (live e \<and> same_triple p e \<and> content_hash e = H p)"

text \<open>Two stored edges that differ at most in the three fields a verification writes.\<close>

definition verified_only :: "stored_edge \<Rightarrow> stored_edge \<Rightarrow> bool" where
  "verified_only e e' =
     (e' = e\<lparr>last_verified := last_verified e', verification_count := verification_count e',
             source_url := source_url e'\<rparr>)"

text \<open>
  What a run of verifications by the proposed edges \<open>ps\<close> makes of a stored edge: each
  proposed edge that matches it counts once.
\<close>

definition reverified :: "(temporal_edge \<Rightarrow> string) \<Rightarrow> instant \<Rightarrow> string \<Rightarrow> temporal_edge list \<Rightarrow> stored_edge \<Rightarrow> stored_edge" where
  "reverified H now url ps e =
     (if list_ex (\<lambda>p. matches H p e) ps
      then e\<lparr>last_verified := now,
             verification_count := verification_count e + length (filter (\<lambda>p. matches H p e) ps),
             source_url := url\<rparr>
      else e)"

text \<open>What \<open>mark_verified\<close> makes of a stored edge.\<close>

definition refreshed :: "instant \<Rightarrow> string \<Rightarrow> stored_edge \<Rightarrow> stored_edge \<Rightarrow> bool" where
  "refreshed now url e e' =
     (if live e \<and> source_url e = url
      then e' = e\<lparr>last_verified := now, verification_count := verification_count e + 1\<rparr>
      else e' = e)"


section \<open>Stores used as examples\<close>

text \<open>
  A stand-in for SHA-256 and a JSON encoder for the examples: the text itself as its
  own digest, and the encoding \<open>json.dumps(properties, sort_keys=True)\<close> gives: the
  keys in ascending order, strings in double quotes with the escapes of \<open>json\<close>,
  integers in decimal, \<open>true\<close> and \<open>false\<close>. The theorems hold for every digest and
  every encoder.
\<close>

definition stand_in_digest :: "string \<Rightarrow> string" where
  "stand_in_digest text = text"

definition json_char :: "char \<Rightarrow> string" where
  "json_char c =
     (if c = CHR 0x22 then [CHR 0x5C, CHR 0x22]
      else if c = CHR 0x5C then [CHR 0x5C, CHR 0x5C]
      else if c = CHR 0x0A then [CHR 0x5C, CHR ''n'']
      else if c = CHR 0x0D then [CHR 0x5C, CHR ''r'']
      else if c = CHR 0x09 then [CHR 0x5C, CHR ''t'']
      else if c = CHR 0x08 then [CHR 0x5C, CHR ''b'']
      else if c = CHR 0x0C then [CHR 0x5C, CHR ''f'']
      else if code_in c 0x20 0x7E then [c]
      else [CHR 0x5C, CHR ''u'', CHR ''0'', CHR ''0''] @ hex_byte c)"

definition json_string :: "string \<Rightarrow> string" where
  "json_string s = [CHR 0x22] @ concat (map json_char s) @ [CHR 0x22]"

function dec_nat :: "nat \<Rightarrow> string" where
  "dec_nat n = (if n < 10 then [char_of (48 + n)] else dec_nat (n div 10) @ [char_of (48 + n mod 10)])"
  by pat_completeness auto
termination
  by (relation "measure (\<lambda>n. n)") auto

definition dec_int :: "int \<Rightarrow> string" where
  "dec_int i = (if i < 0 then ''-'' @ dec_nat (nat (- i)) else dec_nat (nat i))"

definition json_scalar :: "scalar \<Rightarrow> string" where
  "json_scalar v =
     (case v of SStr s \<Rightarrow> json_string s | SNum n \<Rightarrow> dec_int n
      | SBool b \<Rightarrow> (if b then ''true'' else ''false''))"

definition example_json :: "props \<Rightarrow> string" where
  "example_json ps =
     ''{'' @
     str_join '', '' (map (\<lambda>(k, v). json_string k @ '': '' @ json_scalar v) (sort_key fst ps)) @
     ''}''"

text \<open>
  Scenario S2: the edge (tesla, LOCATED_IN, austin) asserted with \<open>since = 2021\<close> at
  \<open>T1 = 1000\<close>, then with \<open>since = 2022\<close>; the empty store, and the store after the
  first upsert, with the document state of its source.
\<close>

definition empty_store :: store where
  "empty_store = \<lparr>store_nodes = [], store_edges = [], documents = []\<rparr>"

definition located_2021 :: temporal_edge where
  "located_2021 =
     \<lparr>source = ''tesla'', target = ''austin'', relation = ''LOCATED_IN'',
      properties = [(''since'', SStr ''2021'')], valid_from = 1000, confidence = 1\<rparr>"

definition located_2022 :: temporal_edge where
  "located_2022 =
     \<lparr>source = ''tesla'', target = ''austin'', relation = ''LOCATED_IN'',
      properties = [(''since'', SStr ''2022'')], valid_from = 2000, confidence = 1\<rparr>"

definition stored_2021 :: stored_edge where
  "stored_2021 =
     \<lparr>source = ''tesla'', target = ''austin'', relation = ''LOCATED_IN'',
      properties = [(''since'', SStr ''2021'')], valid_from = 1000, confidence = 1,
      content_hash = compute_hash stand_in_digest example_json located_2021,
      valid_to = None, last_verified = 1000, verification_count = 1,
      source_url = ''https://example.com/tesla''\<rparr>"

definition tesla_store :: store where
  "tesla_store =
     \<lparr>store_nodes =
        [\<lparr>entity_id = ''tesla'', label = ''Entity'', entity_properties = []\<rparr>,
         \<lparr>entity_id = ''austin'', label = ''Entity'', entity_properties = []\<rparr>],
      store_edges = [stored_2021],
      documents =
        [(''https://example.com/tesla'',
          \<lparr>document_hash = ''hash123'', last_checked = 1000\<rparr>)]\<rparr>"

text \<open>
  The store of \<open>test_find_stale_nodes_mixed_data\<close>, thirty days after the epoch: one
  edge verified thirty days ago, one verified now.
\<close>

definition mixed_store :: store where
  "mixed_store =
     \<lparr>store_nodes = [],
      store_edges =
        [\<lparr>source = ''Old'', target = ''Data'', relation = ''RELATES_TO'', properties = [],
          valid_from = 0, confidence = 1, content_hash = ''h1'', valid_to = None,
          last_verified = 0, verification_count = 1,
          source_url = ''https://example.com/old''\<rparr>,
         \<lparr>source = ''Recent'', target = ''Data'', relation = ''RELATES_TO'', properties = [],
          valid_from = 30 * day, confidence = 1, content_hash = ''h2'', valid_to = None,
          last_verified = 30 * day, verification_count = 1,
          source_url = ''https://example.com/recent''\<rparr>],
      documents = []\<rparr>"


text \<open>
  A scraper that finds the page as it was stored, and an extractor that finds nothing.
\<close>

definition same_page :: "string \<Rightarrow> string + string \<times> string" where
  "same_page url = Inr (''markdown content'', ''hash123'')"

definition no_extraction :: "string \<Rightarrow> graph_data" where
  "no_extraction content = \<lparr>nodes = [], edges = []\<rparr>"


section \<open>Graph drivers used as examples\<close>

text \<open>
  A graph in which the lookup matches nothing, a driver whose session cannot be opened,
  and a graph that holds the edge (sam_altman, CEO_OF, openai) with confidence 0.9.
\<close>

definition no_records :: "string \<Rightarrow> string + row list" where
  "no_records query = Inr []"




section \<open>Properties of the entity extraction\<close>

lemma capitalised_nonempty: "capitalised w \<Longrightarrow> w \<noteq> []"
  by (auto simp: capitalised_def)

lemma extract_loop_groups:
  "(case extract_loop ws (map (str_join '' '') groups) current of
      (entities, cur) \<Rightarrow> if cur \<noteq> [] then entities @ [str_join '' '' cur] else entities)
   = map (str_join '' '') (group_loop (map clean_word ws) groups current)"
proof (induction ws arbitrary: groups current)
  case Nil
  show ?case by simp
next
  case (Cons w ws)
  have flush: "map (str_join '' '') groups @ [str_join '' '' current]
      = map (str_join '' '') (groups @ [current])" by simp
  show ?case
    using Cons.IH[of groups current] Cons.IH[of groups "current @ [clean_word w]"]
      Cons.IH[of "groups @ [current]" "[]"] capitalised_nonempty[of "clean_word w"]
    unfolding flush[symmetric]
    by (auto simp: qualifies_def)
qed

lemma extract_entities_groups:
  "extract_entities_from_question q = map (str_join '' '') (group_loop (question_tokens q) [] [])"
  using extract_loop_groups[of "str_split q" "[]" "[]"]
  by (simp add: extract_entities_from_question_def question_tokens_def)

lemma str_join_nonempty: "ws \<noteq> [] \<Longrightarrow> [] \<notin> set ws \<Longrightarrow> str_join sep ws \<noteq> []"
  by (induction sep ws rule: str_join.induct) auto

lemma split_on_nonempty [simp]: "split_on P xs \<noteq> []"
  by (induction xs) (auto split: list.splits)

lemma split_on_Cons:
  "split_on P (x # xs) =
     (if P x then [] # split_on P xs
      else (x # hd (split_on P xs)) # tl (split_on P xs))"
  by (cases "split_on P xs") auto

lemma group_loop_split:
  "group_loop ts groups current =
     groups @ filter (\<lambda>g. g \<noteq> [])
       ((current @ filter qualifies (hd (split_on closes_phrase ts))) #
        map (filter qualifies) (tl (split_on closes_phrase ts)))"
proof (induction ts arbitrary: groups current)
  case Nil
  show ?case by simp
next
  case (Cons t ts)
  have q: "qualifies t \<Longrightarrow> \<not> closes_phrase t"
    by (simp add: qualifies_def closes_phrase_def)
  show ?case
  proof (cases "closes_phrase t")
    case True
    then have nq: "\<not> qualifies t" using q by blast
    from True have skip: "\<not> (t = [] \<or> capitalised t)" by (simp add: closes_phrase_def)
    have segs: "map (filter qualifies) (split_on closes_phrase ts) =
        filter qualifies (hd (split_on closes_phrase ts)) #
        map (filter qualifies) (tl (split_on closes_phrase ts))"
      by (cases "split_on closes_phrase ts") auto
    have rhs: "filter (\<lambda>g. g \<noteq> [])
        ((current @ filter qualifies (hd (split_on closes_phrase (t # ts)))) #
         map (filter qualifies) (tl (split_on closes_phrase (t # ts))))
      = filter (\<lambda>g. g \<noteq> []) (current # filter qualifies (hd (split_on closes_phrase ts)) #
         map (filter qualifies) (tl (split_on closes_phrase ts)))"
      using True segs by simp
    show ?thesis
      unfolding rhs
      using True nq skip Cons.IH[of "groups @ [current]" "[]"] Cons.IH[of groups "[]"]
      by simp
  next
    case False
    then have skip: "\<not> qualifies t \<Longrightarrow> t = [] \<or> capitalised t"
      by (auto simp: closes_phrase_def)
    show ?thesis
      using False skip Cons.IH[of groups "current @ [t]"] Cons.IH[of groups current]
      by (auto simp: split_on_Cons simp del: split_on.simps)
  qed
qed

lemma split_on_cong:
  "(\<And>x. x \<in> set xs \<Longrightarrow> P x = Q x) \<Longrightarrow> split_on P xs = split_on Q xs"
  by (induction xs) auto

lemma split_on_segment:
  "s \<in> set (split_on P xs) \<Longrightarrow> x \<in> set s \<Longrightarrow> \<not> P x \<and> x \<in> set xs"
proof (induction xs arbitrary: s)
  case Nil
  then show ?case by simp
next
  case (Cons y ys)
  show ?case
  proof (cases "P y")
    case True
    with Cons.prems have "s \<in> set (split_on P ys)" by auto
    from Cons.IH[OF this Cons.prems(2)] show ?thesis by simp
  next
    case False
    obtain s0 ss where sp: "split_on P ys = s0 # ss"
      by (cases "split_on P ys") auto
    with False Cons.prems(1) have "s = y # s0 \<or> s \<in> set ss" by auto
    then show ?thesis
    proof
      assume "s = y # s0"
      with Cons.prems(2) have "x = y \<or> x \<in> set s0" by auto
      then show ?thesis
      proof
        assume "x = y" with False show ?thesis by simp
      next
        assume "x \<in> set s0"
        with Cons.IH[of s0] sp show ?thesis by simp
      qed
    next
      assume "s \<in> set ss"
      with Cons.IH[of s] sp Cons.prems(2) show ?thesis by simp
    qed
  qed
qed

lemma extract_entities_phrases_of:
  "extract_entities_from_question q = phrases_of (question_tokens q)"
proof -
  have "map (filter qualifies) (split_on closes_phrase ts) =
      filter qualifies (hd (split_on closes_phrase ts)) #
      map (filter qualifies) (tl (split_on closes_phrase ts))" for ts
    by (cases "split_on closes_phrase ts") auto
  then show ?thesis
    by (simp add: extract_entities_groups group_loop_split phrases_of_def)
qed

lemma phrases_of_nonempty: "[] \<notin> set (phrases_of ts)"
proof
  assume "[] \<in> set (phrases_of ts)"
  then obtain s where s: "s \<in> set (split_on closes_phrase ts)" "filter qualifies s \<noteq> []"
      "str_join '' '' (filter qualifies s) = []"
    by (auto simp: phrases_of_def)
  have "[] \<notin> set (filter qualifies s)"
    using capitalised_nonempty by (auto simp: qualifies_def)
  with s(2) have "str_join '' '' (filter qualifies s) \<noteq> []"
    by (rule str_join_nonempty)
  with s(3) show False by simp
qed

lemma phrases_of_none:
  assumes "\<forall>t\<in>set ts. \<not> qualifies t"
  shows "phrases_of ts = []"
proof -
  have "filter qualifies s = []" if "s \<in> set (split_on closes_phrase ts)" for s
    using split_on_segment[OF that] assms by (auto simp: filter_empty_conv)
  then have "filter (\<lambda>g. g \<noteq> []) (map (filter qualifies) (split_on closes_phrase ts)) = []"
    by (auto simp: filter_empty_conv)
  then show ?thesis by (simp add: phrases_of_def)
qed

lemma phrases_of_consecutive:
  assumes "\<forall>t\<in>set ts. qualifies t \<or> closes_phrase t"
  shows "phrases_of ts = consecutive_phrases ts"
proof -
  have excl: "qualifies t \<Longrightarrow> \<not> closes_phrase t" for t
    by (simp add: qualifies_def closes_phrase_def)
  have "split_on closes_phrase ts = split_on (\<lambda>t. \<not> qualifies t) ts"
    by (rule split_on_cong) (use assms excl in blast)
  moreover have "map (filter qualifies) (split_on (\<lambda>t. \<not> qualifies t) ts)
      = split_on (\<lambda>t. \<not> qualifies t) ts"
  proof (rule map_idI)
    fix s assume "s \<in> set (split_on (\<lambda>t. \<not> qualifies t) ts)"
    then have "\<forall>x\<in>set s. qualifies x" using split_on_segment by fastforce
    then show "filter qualifies s = s" by simp
  qed
  ultimately show ?thesis by (simp add: phrases_of_def consecutive_phrases_def)
qed

text \<open>
  Claim C9, as stated, fails: the phrases are not the maximal runs of consecutive
  qualifying words. In "Tesla Is Great" the words Tesla and Great are not consecutive
  (the capitalised question word "Is" stands between them), yet they are joined into
  the one entity "Tesla Great".
\<close>

theorem extract_entities_consecutive_counterexample:
  "question_tokens ''Tesla Is Great'' = [''Tesla'', ''Is'', ''Great''] \<and>
   extract_entities_from_question ''Tesla Is Great'' = [''Tesla Great''] \<and>
   consecutive_phrases (question_tokens ''Tesla Is Great'') = [''Tesla'', ''Great''] \<and>
   extract_entities_from_question ''Tesla Is Great'' \<noteq>
     consecutive_phrases (question_tokens ''Tesla Is Great'')"
  by code_simp

text \<open>
  Claim C9, amended. For every question, the list \<open>_extract_entities_from_question\<close>
  returns is obtained from the cleaned words of the question, in order, as follows:
  the words are cut at every word that is non-empty and not capitalised; within each
  run between two cuts only the qualifying words are kept (capitalised, that is with
  an uppercase first character or all-uppercase, and with a lowercase form outside the
  question words), so capitalised question words and words that clean to nothing are
  dropped without ending the phrase; and every run that keeps a word is one entity,
  its words joined by single spaces. No entity is empty; a question with no qualifying
  word yields the empty list; and when every cleaned word of the question either
  qualifies or closes a phrase, the entities are exactly the maximal runs of
  consecutive qualifying words.
\<close>

theorem extract_entities_phrases:
  "extract_entities_from_question q = phrases_of (question_tokens q) \<and>
   [] \<notin> set (extract_entities_from_question q) \<and>
   ((\<forall>t\<in>set (question_tokens q). \<not> qualifies t) \<longrightarrow>
      extract_entities_from_question q = []) \<and>
   ((\<forall>t\<in>set (question_tokens q). qualifies t \<or> closes_phrase t) \<longrightarrow>
      extract_entities_from_question q = consecutive_phrases (question_tokens q))"
  using phrases_of_nonempty phrases_of_none phrases_of_consecutive
  by (simp add: extract_entities_phrases_of)

theorem extract_entities_phrases_witness:
  "extract_entities_from_question ''tell me about Tesla Motors and SpaceX'' =
     consecutive_phrases (question_tokens ''tell me about Tesla Motors and SpaceX'') \<and>
   consecutive_phrases (question_tokens ''tell me about Tesla Motors and SpaceX'') =
     [''Tesla Motors'', ''SpaceX''] \<and>
   phrases_of (question_tokens ''Tesla Is Great'') = [''Tesla Great''] \<and>
   extract_entities_from_question ''what is this?'' = []"
proof -
  have all: "\<forall>t\<in>set (question_tokens ''tell me about Tesla Motors and SpaceX'').
      qualifies t \<or> closes_phrase t"
    by code_simp
  have none: "\<forall>t\<in>set (question_tokens ''what is this?''). \<not> qualifies t"
    by code_simp
  have runs: "consecutive_phrases (question_tokens ''tell me about Tesla Motors and SpaceX'') =
     [''Tesla Motors'', ''SpaceX'']"
    by code_simp
  have mixed: "extract_entities_from_question ''Tesla Is Great'' = [''Tesla Great'']"
    by code_simp
  from extract_entities_phrases[of "''tell me about Tesla Motors and SpaceX''"] all
  have a: "extract_entities_from_question ''tell me about Tesla Motors and SpaceX'' =
     consecutive_phrases (question_tokens ''tell me about Tesla Motors and SpaceX'')"
    by blast
  from extract_entities_phrases[of "''what is this?''"] none
  have b: "extract_entities_from_question ''what is this?'' = []"
    by blast
  from extract_entities_phrases[of "''Tesla Is Great''"] mixed
  have c: "phrases_of (question_tokens ''Tesla Is Great'') = [''Tesla Great'']"
    by simp
  show ?thesis using a b c runs by simp
qed


section \<open>Properties of the query engine\<close>

text \<open>
  Claim C6, as stated, fails: when the lookup matches no record,
  \<open>execute_query_with_path\<close> does not answer
  "I don't have enough information to answer that."
\<close>

theorem no_results_answer_counterexample:
  "answer (execute_query_with_path no_records ''Who is the CEO of OpenAI?'' None)
     \<noteq> ''I don't have enough information to answer that.''"
  by (simp add: execute_query_with_path_def query_try_def no_records_def)

text \<open>
  Claim C6, amended. For every question whose emitted lookup matches no record,
  \<open>execute_query_with_path\<close> returns the answer "No results found." with an empty path
  and empty results (and no \<open>cypher_query\<close> key), whatever the timestamp; and
  \<open>_format_answer\<close> itself, given no records, returns
  "I don't have enough information to answer that question." Neither states a fact.
\<close>

theorem no_results_answer:
  "run_query (generate_cypher_from_question question) = Inr [] \<Longrightarrow>
   execute_query_with_path run_query question timestamp =
     \<lparr>answer = ''No results found.'', path = PList [], results = [], cypher_query = None\<rparr> \<and>
   format_answer question [] =
     Inr ''I don't have enough information to answer that question.''"
  by (simp add: execute_query_with_path_def query_try_def format_answer_def)

theorem no_results_answer_witness:
  "no_records (generate_cypher_from_question ''Who is the CEO of OpenAI?'') = Inr [] \<and>
   execute_query_with_path no_records ''Who is the CEO of OpenAI?'' None =
     \<lparr>answer = ''No results found.'', path = PList [], results = [], cypher_query = None\<rparr>"
  using no_results_answer[of no_records "''Who is the CEO of OpenAI?''" None]
  by (simp add: no_records_def)

text \<open>
  Claim C7 says that a question submitted with a timestamp is evaluated against the
  snapshot at that instant. The code does not do so: \<open>execute_query_with_path\<close> never
  reads its \<open>timestamp\<close> argument, so on every graph driver the result with a timestamp
  is the result without one.
\<close>

theorem timestamp_ignored:
  "execute_query_with_path run_query question (Some t) =
   execute_query_with_path run_query question None"
  by (simp add: execute_query_with_path_def query_try_def)







section \<open>Properties of the HTTP facade\<close>

text \<open>
  Claim C10. Whenever the global \<open>sentinel_agent\<close> is \<open>None\<close>, \<open>POST /api/ingest\<close>
  raises the HTTP exception 503 with detail "Sentinel agent not initialized", and
  leaves the application as it was: the status dictionary is unchanged and nothing the
  agent could reach (scraper, extractor, store) has been touched.
\<close>

theorem ingest_without_agent:
  "sentinel_agent a = None \<Longrightarrow>
   ingest_url utcnow url a = (Inl (HTTPException 503 ''Sentinel agent not initialized''), a)"
  by (simp add: ingest_url_def)

theorem ingest_without_agent_witness:
  "sentinel_agent \<lparr>sentinel_agent = None,
      status = \<lparr>state = ''Idle'', message = ''Waiting for tasks...'',
                last_update = ''2024-01-15T12:00:00''\<rparr>,
      world = ()\<rparr> = None \<and>
   ingest_url (\<lambda>w. ''2024-01-15T12:00:05'') ''https://example.com/tesla''
     \<lparr>sentinel_agent = None,
      status = \<lparr>state = ''Idle'', message = ''Waiting for tasks...'',
                last_update = ''2024-01-15T12:00:00''\<rparr>,
      world = ()\<rparr>
   = (Inl (HTTPException 503 ''Sentinel agent not initialized''),
      \<lparr>sentinel_agent = None,
       status = \<lparr>state = ''Idle'', message = ''Waiting for tasks...'',
                 last_update = ''2024-01-15T12:00:00''\<rparr>,
       world = ()\<rparr>)"
  using ingest_without_agent[of "\<lparr>sentinel_agent = None,
      status = \<lparr>state = ''Idle'', message = ''Waiting for tasks...'',
                last_update = ''2024-01-15T12:00:00''\<rparr>,
      world = ()\<rparr>" "\<lambda>w. ''2024-01-15T12:00:05''" "''https://example.com/tesla''"]
  by simp

lemma ingest_with_agent_status:
  "sentinel_agent a = Some agent \<Longrightarrow>
   state (status (snd (ingest_url utcnow url a))) \<in> {''Idle'', ''Error''}"
  by (auto simp: ingest_url_def update_status_def Let_def split: prod.splits sum.splits)


section \<open>Properties of the temporal graph store\<close>

text \<open>
  The content hash reads the endpoints, the relation and the property map only: edges
  that agree on them have one hash, whatever their \<open>valid_from\<close> and confidence are
  and whatever digest and encoder are used.
\<close>

lemma compute_hash_content_only:
  "source e = source e' \<Longrightarrow> relation e = relation e' \<Longrightarrow> target e = target e' \<Longrightarrow>
   properties e = properties e' \<Longrightarrow>
   compute_hash sha256 canonical_json e = compute_hash sha256 canonical_json e'"
  by (simp add: compute_hash_def)

lemma merge_entity_edges:
  "merge_entity n (st, stats) = (st1, stats1) \<Longrightarrow>
   store_edges st1 = store_edges st \<and> documents st1 = documents st \<and>
   edges_created stats1 = edges_created stats \<and>
   edges_verified stats1 = edges_verified stats \<and>
   edges_invalidated stats1 = edges_invalidated stats"
  by (auto simp: merge_entity_def split: if_splits)

lemma fold_merge_entity_edges:
  "fold merge_entity ns (st, stats) = (st1, stats1) \<Longrightarrow>
   store_edges st1 = store_edges st \<and> documents st1 = documents st \<and>
   edges_created stats1 = edges_created stats \<and>
   edges_verified stats1 = edges_verified stats \<and>
   edges_invalidated stats1 = edges_invalidated stats"
proof (induction ns arbitrary: st stats)
  case Nil
  then show ?case by simp
next
  case (Cons n ns)
  obtain st2 stats2 where m: "merge_entity n (st, stats) = (st2, stats2)"
    by (cases "merge_entity n (st, stats)")
  from Cons.prems have "fold merge_entity ns (st2, stats2) = (st1, stats1)"
    by (simp add: m)
  from Cons.IH[OF this] merge_entity_edges[OF m] show ?case by simp
qed

lemma upsert_edge_case_B:
  assumes "filter (\<lambda>e. live e \<and> same_triple p e) (store_edges st) = [old]"
    and "H p \<noteq> content_hash old"
    and "upsert_edge H now url p (st, stats) = (st', stats')"
  shows "store_edges st' =
      map (\<lambda>e. if live e \<and> same_triple p e then close_edge now e else e) (store_edges st)
        @ [new_edge H now url p]"
    and "edges_invalidated stats' = edges_invalidated stats + 1"
    and "edges_created stats' = edges_created stats + 1"
    and "edges_verified stats' = edges_verified stats"
  using assms by (auto simp: upsert_edge_def Let_def)

lemma only_old:
  assumes "filter P es = [old]" and "e \<in> set es"
  shows "P e \<longleftrightarrow> e = old"
proof -
  have "set (filter P es) = {old}" using assms(1) by simp
  then show ?thesis using assms(2) by auto
qed

lemma same_triple_close [simp]: "same_triple p (close_edge now e) = same_triple p e"
  by (simp add: same_triple_def close_edge_def)

lemma same_triple_new [simp]: "same_triple p (new_edge H now url p)"
  by (simp add: same_triple_def new_edge_def)

text \<open>
  Case B of \<open>upsert_bundle\<close>, the behaviour claim C1 describes, under the condition
  the store itself tests. Let the store hold exactly one live edge \<open>old\<close> between the
  endpoints and with the relation of the proposed edge \<open>p\<close>, created at \<open>T1\<close>, every
  other edge between them being history closed by \<open>T1\<close>, and let the content hash of
  \<open>p\<close> differ from the hash stored with \<open>old\<close>. Upserting \<open>p\<close> at \<open>T2 > T1\<close> closes
  \<open>old\<close> with \<open>valid_to = T2\<close>, creates a live edge with \<open>valid_from = T2\<close> and
  \<open>valid_to = \<bottom>\<close>, and reports \<open>edges_invalidated = 1\<close> and \<open>edges_created = 1\<close>.
  Afterwards the snapshot at any \<open>t\<close> from \<open>T1\<close> up to \<open>T2\<close> holds, between these
  endpoints, exactly the old edge, and the snapshot at any \<open>t\<close> from \<open>T2\<close> on exactly
  the new one. Whether a different property map gives a different content hash is a
  property of SHA-256 and of the encoder, which are parameters here; it is not
  established.
\<close>

theorem upsert_changed_edge:
  assumes lives: "filter (\<lambda>e. live e \<and> same_triple p e) (store_edges st) = [old]"
    and hist: "\<forall>e\<in>set (store_edges st). same_triple p e \<longrightarrow>
                 (case valid_to e of None \<Rightarrow> True | Some c \<Rightarrow> c \<le> T1)"
    and vf: "valid_from old = T1"
    and lt: "T1 < T2"
    and diff: "compute_hash sha256 canonical_json p \<noteq> content_hash old"
    and run: "upsert_bundle (compute_hash sha256 canonical_json) T2
                \<lparr>nodes = ns, edges = [p]\<rparr> url st = (stats, st')"
  shows "edges_invalidated stats = 1 \<and> edges_created stats = 1 \<and> edges_verified stats = 0 \<and>
     store_edges st' =
       map (\<lambda>e. if e = old then old\<lparr>valid_to := Some T2\<rparr> else e) (store_edges st) @
       [new_edge (compute_hash sha256 canonical_json) T2 url p] \<and>
     valid_from (new_edge (compute_hash sha256 canonical_json) T2 url p) = T2 \<and>
     valid_to (new_edge (compute_hash sha256 canonical_json) T2 url p) = None \<and>
     (\<forall>t. T1 \<le> t \<and> t < T2 \<longrightarrow>
        filter (same_triple p) (edges_at t st') = [old\<lparr>valid_to := Some T2\<rparr>] \<and>
        filter (link_between p) (links (snapshot_at now (Some t) st')) =
          [link_of (old\<lparr>valid_to := Some T2\<rparr>)]) \<and>
     (\<forall>t. T2 \<le> t \<longrightarrow>
        filter (same_triple p) (edges_at t st') =
          [new_edge (compute_hash sha256 canonical_json) T2 url p] \<and>
        filter (link_between p) (links (snapshot_at now (Some t) st')) =
          [link_of (new_edge (compute_hash sha256 canonical_json) T2 url p)])"
proof -
  let ?H = "compute_hash sha256 canonical_json"
  let ?new = "new_edge ?H T2 url p"
  let ?closed = "old\<lparr>valid_to := Some T2\<rparr>"
  let ?E = "store_edges st"
  let ?zero = "\<lparr>nodes_created = 0, nodes_updated = 0, edges_created = 0,
                 edges_verified = 0, edges_invalidated = 0\<rparr>"
  obtain st1 stats1 where m: "fold merge_entity ns (st, ?zero) = (st1, stats1)"
    by (cases "fold merge_entity ns (st, ?zero)")
  note m1 = fold_merge_entity_edges[OF m]
  have step: "upsert_edge ?H T2 url p (st1, stats1) = (st', stats)"
    using run by (simp add: upsert_bundle_def m split: prod.splits)
  have lives1: "filter (\<lambda>e. live e \<and> same_triple p e) (store_edges st1) = [old]"
    using lives m1 by simp
  note B = upsert_edge_case_B[OF lives1 diff step]
  have old_iff: "(live e \<and> same_triple p e) \<longleftrightarrow> e = old" if "e \<in> set ?E" for e
    using only_old[OF lives that] .
  have old_in: "old \<in> set ?E" "live old" "same_triple p old"
  proof -
    have "old \<in> set (filter (\<lambda>e. live e \<and> same_triple p e) ?E)" unfolding lives by simp
    then show "old \<in> set ?E" "live old" "same_triple p old" by auto
  qed
  have edges': "store_edges st' = map (\<lambda>e. if e = old then ?closed else e) ?E @ [?new]"
  proof -
    have "map (\<lambda>e. if live e \<and> same_triple p e then close_edge T2 e else e) ?E
        = map (\<lambda>e. if e = old then ?closed else e) ?E"
      by (rule map_cong) (auto simp: old_iff close_edge_def)
    then show ?thesis using B(1) m1 by simp
  qed
  have closed_hist: "\<exists>c. valid_to e = Some c \<and> c \<le> T1"
    if "e \<in> set ?E" "same_triple p e" "e \<noteq> old" for e
  proof -
    from that old_iff[of e] have "\<not> live e" by auto
    then obtain c where "valid_to e = Some c" by (auto simp: live_def)
    with hist that show ?thesis by force
  qed
  have during: "filter (same_triple p) (edges_at t st') = [?closed]" if "T1 \<le> t" "t < T2" for t
  proof -
    have "filter (\<lambda>e. same_triple p e \<and> valid_at t e) (map (\<lambda>e. if e = old then ?closed else e) ?E)
        = map (\<lambda>e. if e = old then ?closed else e) (filter (\<lambda>e. live e \<and> same_triple p e) ?E)"
      unfolding filter_map
    proof (intro arg_cong[where f = "map _"] filter_cong refl)
      fix e assume e: "e \<in> set ?E"
      show "((\<lambda>e. same_triple p e \<and> valid_at t e) \<circ> (\<lambda>e. if e = old then ?closed else e)) e
          = (live e \<and> same_triple p e)"
      proof (cases "e = old")
        case True
        then show ?thesis using old_in vf that
          by (simp add: valid_at_def same_triple_def)
      next
        case False
        show ?thesis
        proof (cases "same_triple p e")
          case True
          from closed_hist[OF e True False] obtain c where "valid_to e = Some c" "c \<le> T1" by blast
          then show ?thesis using False True that by (simp add: valid_at_def live_def)
        next
          case False
          then show ?thesis using \<open>e \<noteq> old\<close> by simp
        qed
      qed
    qed
    moreover have "\<not> valid_at t ?new" using that by (simp add: valid_at_def new_edge_def)
    ultimately show ?thesis
      unfolding edges_at_def edges' lives by (simp add: conj_commute)
  qed
  have after: "filter (same_triple p) (edges_at t st') = [?new]" if "T2 \<le> t" for t
  proof -
    have "filter (\<lambda>e. same_triple p e \<and> valid_at t e) (map (\<lambda>e. if e = old then ?closed else e) ?E)
        = map (\<lambda>e. if e = old then ?closed else e) (filter (\<lambda>e. False) ?E)"
      unfolding filter_map
    proof (intro arg_cong[where f = "map _"] filter_cong refl)
      fix e assume e: "e \<in> set ?E"
      show "((\<lambda>e. same_triple p e \<and> valid_at t e) \<circ> (\<lambda>e. if e = old then ?closed else e)) e
          = False"
      proof (cases "e = old")
        case True
        then show ?thesis using that by (simp add: valid_at_def)
      next
        case False
        show ?thesis
        proof (cases "same_triple p e")
          case True
          from closed_hist[OF e True False] obtain c where "valid_to e = Some c" "c \<le> T1" by blast
          then show ?thesis using False True that lt by (simp add: valid_at_def)
        next
          case False
          then show ?thesis using \<open>e \<noteq> old\<close> by simp
        qed
      qed
    qed
    moreover have "valid_at t ?new" using that by (simp add: valid_at_def new_edge_def)
    ultimately show ?thesis
      unfolding edges_at_def edges' by (simp add: conj_commute)
  qed
  have links: "filter (link_between p) (links (snapshot_at now (Some t) s))
      = map link_of (filter (same_triple p) (edges_at t s))" for t s
  proof -
    have "same_triple p = (\<lambda>x. source x = source p \<and> relation x = relation p \<and>
        target x = target p)"
      by (rule ext) (simp add: same_triple_def)
    then show ?thesis
      by (simp add: snapshot_at_def Let_def filter_map comp_def link_between_def link_of_def)
  qed
  have stats: "edges_invalidated stats = 1" "edges_created stats = 1" "edges_verified stats = 0"
    using B(2,3,4) m1 by simp_all
  show ?thesis
    using stats edges' during after by (simp add: links new_edge_def)
qed

text \<open>The example store is what the first upsert of scenario S2 leaves.\<close>

lemma first_upsert_tesla_store:
  "upsert_bundle (compute_hash stand_in_digest example_json) 1000
     \<lparr>nodes = [], edges = [located_2021]\<rparr> ''https://example.com/tesla'' empty_store
   = (\<lparr>nodes_created = 0, nodes_updated = 0, edges_created = 1, edges_verified = 0,
       edges_invalidated = 0\<rparr>,
      tesla_store\<lparr>documents := []\<rparr>)"
  by (simp add: upsert_bundle_def upsert_edge_def empty_store_def tesla_store_def
      stored_2021_def new_edge_def located_2021_def ensure_node_def Let_def)

lemma first_process_tesla_store:
  "set_document_state 1000 ''https://example.com/tesla'' ''hash123''
     (tesla_store\<lparr>documents := []\<rparr>) = tesla_store"
  by (simp add: set_document_state_def tesla_store_def)

lemma example_hashes_differ:
  "compute_hash stand_in_digest example_json located_2022 \<noteq> content_hash stored_2021"
proof -
  have "example_json [(''since'', SStr ''2022'')] \<noteq> example_json [(''since'', SStr ''2021'')]"
    by code_simp
  then show ?thesis
    by (simp add: compute_hash_def stand_in_digest_def located_2022_def located_2021_def
        stored_2021_def)
qed

theorem upsert_changed_edge_witness:
  "filter (\<lambda>e. live e \<and> same_triple located_2022 e) (store_edges tesla_store) = [stored_2021] \<and>
   edges_invalidated (fst (upsert_bundle (compute_hash stand_in_digest example_json) 2000
       \<lparr>nodes = [], edges = [located_2022]\<rparr> ''https://example.com/tesla'' tesla_store)) = 1 \<and>
   edges_created (fst (upsert_bundle (compute_hash stand_in_digest example_json) 2000
       \<lparr>nodes = [], edges = [located_2022]\<rparr> ''https://example.com/tesla'' tesla_store)) = 1 \<and>
   filter (same_triple located_2022)
     (edges_at 1500 (snd (upsert_bundle (compute_hash stand_in_digest example_json) 2000
       \<lparr>nodes = [], edges = [located_2022]\<rparr> ''https://example.com/tesla'' tesla_store)))
     = [stored_2021\<lparr>valid_to := Some 2000\<rparr>] \<and>
   filter (same_triple located_2022)
     (edges_at 2500 (snd (upsert_bundle (compute_hash stand_in_digest example_json) 2000
       \<lparr>nodes = [], edges = [located_2022]\<rparr> ''https://example.com/tesla'' tesla_store)))
     = [new_edge (compute_hash stand_in_digest example_json) 2000 ''https://example.com/tesla''
          located_2022]"
proof -
  let ?H = "compute_hash stand_in_digest example_json"
  let ?run = "upsert_bundle ?H 2000 \<lparr>nodes = [], edges = [located_2022]\<rparr>
      ''https://example.com/tesla'' tesla_store"
  have lives: "filter (\<lambda>e. live e \<and> same_triple located_2022 e) (store_edges tesla_store)
      = [stored_2021]"
    by (simp add: tesla_store_def live_def same_triple_def stored_2021_def located_2022_def)
  have hist: "\<forall>e\<in>set (store_edges tesla_store). same_triple located_2022 e \<longrightarrow>
      (case valid_to e of None \<Rightarrow> True | Some c \<Rightarrow> c \<le> 1000)"
    by (simp add: tesla_store_def stored_2021_def)
  have vf: "valid_from stored_2021 = 1000" by (simp add: stored_2021_def)
  have lt: "(1000::int) < 2000" by simp
  have run: "?run = (fst ?run, snd ?run)" by simp
  note claim = upsert_changed_edge[OF lives hist vf lt example_hashes_differ run, of 0]
  from claim have stats: "edges_invalidated (fst ?run) = 1" "edges_created (fst ?run) = 1"
    by simp_all
  from claim have during: "filter (same_triple located_2022) (edges_at 1500 (snd ?run))
      = [stored_2021\<lparr>valid_to := Some 2000\<rparr>]"
    by simp
  from claim have after: "filter (same_triple located_2022) (edges_at 2500 (snd ?run))
      = [new_edge ?H 2000 ''https://example.com/tesla'' located_2022]"
    by simp
  show ?thesis using lives stats during after by simp
qed

lemma matches_verify_edge [simp]: "matches H q (verify_edge now url e) = matches H q e"
  by (simp add: matches_def verify_edge_def live_def same_triple_def)

lemma upsert_edge_case_A:
  assumes "\<exists>e\<in>set (store_edges st). matches H p e"
    and "upsert_edge H now url p (st, stats) = (st', stats')"
  shows "store_edges st' =
      map (\<lambda>e. if matches H p e then verify_edge now url e else e) (store_edges st)"
    and "edges_verified stats' = Suc (edges_verified stats)"
    and "edges_created stats' = edges_created stats"
    and "edges_invalidated stats' = edges_invalidated stats"
proof -
  have ex: "list_ex (\<lambda>e. content_hash e = H p)
      (filter (\<lambda>e. live e \<and> same_triple p e) (store_edges st))"
    using assms(1) by (auto simp: list_ex_iff matches_def)
  have "(\<lambda>e. if live e \<and> same_triple p e \<and> content_hash e = H p
              then verify_edge now url e else e)
      = (\<lambda>e. if matches H p e then verify_edge now url e else e)"
    by (simp add: matches_def)
  with ex assms(2) show "store_edges st' =
      map (\<lambda>e. if matches H p e then verify_edge now url e else e) (store_edges st)"
    and "edges_verified stats' = Suc (edges_verified stats)"
    and "edges_created stats' = edges_created stats"
    and "edges_invalidated stats' = edges_invalidated stats"
    by (auto simp: upsert_edge_def Let_def)
qed

lemma reverified_step:
  "reverified H now url ps (if matches H p e then verify_edge now url e else e)
     = reverified H now url (p # ps) e"
proof (cases "matches H p e")
  case True
  have "length (filter (\<lambda>p. matches H p e) ps) = 0" if "\<not> list_ex (\<lambda>p. matches H p e) ps"
    using that by (simp add: list_ex_iff filter_empty_conv)
  then show ?thesis
    using True by (auto simp: reverified_def) (auto simp: verify_edge_def)
next
  case False
  then show ?thesis by (simp add: reverified_def)
qed

lemma fold_upsert_verified:
  assumes "\<forall>p\<in>set ps. \<exists>e\<in>set (store_edges st). matches H p e"
    and "fold (upsert_edge H now url) ps (st, stats) = (st', stats')"
  shows "store_edges st' = map (reverified H now url ps) (store_edges st) \<and>
     edges_verified stats' = edges_verified stats + length ps \<and>
     edges_created stats' = edges_created stats \<and>
     edges_invalidated stats' = edges_invalidated stats"
  using assms
proof (induction ps arbitrary: st stats)
  case Nil
  then show ?case by (simp add: reverified_def)
next
  case (Cons p ps)
  obtain st1 stats1 where s: "upsert_edge H now url p (st, stats) = (st1, stats1)"
    by (cases "upsert_edge H now url p (st, stats)")
  have ex: "\<exists>e\<in>set (store_edges st). matches H p e" using Cons.prems(1) by simp
  note A = upsert_edge_case_A[OF ex s]
  have rest: "\<forall>q\<in>set ps. \<exists>e\<in>set (store_edges st1). matches H q e"
  proof
    fix q assume "q \<in> set ps"
    with Cons.prems(1) obtain e where e: "e \<in> set (store_edges st)" "matches H q e" by auto
    let ?e = "if matches H p e then verify_edge now url e else e"
    have "?e \<in> set (store_edges st1)" unfolding A(1) using e(1) by simp
    moreover have "matches H q ?e" using e(2) by simp
    ultimately show "\<exists>e\<in>set (store_edges st1). matches H q e" by blast
  qed
  have run: "fold (upsert_edge H now url) ps (st1, stats1) = (st', stats')"
    using Cons.prems(2) by (simp add: s)
  from Cons.IH[OF rest run] A show ?case
    by (simp add: reverified_step comp_def)
qed

lemma reverified_verified_only: "verified_only e (reverified H now url ps e)"
  by (simp add: verified_only_def reverified_def)

lemma reverified_live_triple:
  "(live (reverified H now url ps e) \<and> same_triple p (reverified H now url ps e))
     = (live e \<and> same_triple p e)"
  by (simp add: reverified_def live_def same_triple_def)

text \<open>
  Claim C2. If every proposed edge of a bundle exactly matches a live edge of the store
  (same endpoints, relation and content hash), then \<open>upsert_bundle\<close> returns
  \<open>edges_created = 0\<close>, \<open>edges_invalidated = 0\<close> and \<open>edges_verified\<close> equal to the
  number of proposed edges; every stored edge keeps its place and differs from what it
  was at most in \<open>last_verified\<close>, \<open>verification_count\<close> and \<open>source_url\<close>: a matched
  edge gets \<open>last_verified = now\<close>, the new source URL and one more verification per
  proposed edge that matches it, any other edge is unchanged; and the number of live
  edges between any endpoints with any relation stays what it was.
\<close>

theorem reupsert_verifies_only:
  assumes "\<forall>p\<in>set (edges b). \<exists>e\<in>set (store_edges st).
             matches (compute_hash sha256 canonical_json) p e"
    and "upsert_bundle (compute_hash sha256 canonical_json) now b url st = (stats, st')"
  shows "edges_created stats = 0 \<and> edges_invalidated stats = 0 \<and>
     edges_verified stats = length (edges b) \<and>
     list_all2
       (\<lambda>e e'. verified_only e e' \<and>
          (if list_ex (\<lambda>p. matches (compute_hash sha256 canonical_json) p e) (edges b)
           then last_verified e' = now \<and> source_url e' = url \<and>
                verification_count e' = verification_count e +
                  length (filter (\<lambda>p. matches (compute_hash sha256 canonical_json) p e) (edges b))
           else e' = e))
       (store_edges st) (store_edges st') \<and>
     (\<forall>p. length (filter (\<lambda>e. live e \<and> same_triple p e) (store_edges st')) =
          length (filter (\<lambda>e. live e \<and> same_triple p e) (store_edges st)))"
proof -
  let ?H = "compute_hash sha256 canonical_json"
  let ?zero = "\<lparr>nodes_created = 0, nodes_updated = 0, edges_created = 0,
                 edges_verified = 0, edges_invalidated = 0\<rparr>"
  obtain st1 stats1 where m: "fold merge_entity (nodes b) (st, ?zero) = (st1, stats1)"
    by (cases "fold merge_entity (nodes b) (st, ?zero)")
  note m1 = fold_merge_entity_edges[OF m]
  have run: "fold (upsert_edge ?H now url) (edges b) (st1, stats1) = (st', stats)"
    using assms(2) by (simp add: upsert_bundle_def m split: prod.splits)
  have pre: "\<forall>p\<in>set (edges b). \<exists>e\<in>set (store_edges st1). matches ?H p e"
    using assms(1) m1 by simp
  note F = fold_upsert_verified[OF pre run]
  have edges': "store_edges st' = map (reverified ?H now url (edges b)) (store_edges st)"
    using F m1 by simp
  have rel: "list_all2
       (\<lambda>e e'. verified_only e e' \<and>
          (if list_ex (\<lambda>p. matches ?H p e) (edges b)
           then last_verified e' = now \<and> source_url e' = url \<and>
                verification_count e' = verification_count e +
                  length (filter (\<lambda>p. matches ?H p e) (edges b))
           else e' = e))
       (store_edges st) (store_edges st')"
    unfolding edges' list_all2_map2
    by (rule list.rel_refl) (simp add: reverified_verified_only, simp add: reverified_def)
  have count: "length (filter (\<lambda>e. live e \<and> same_triple p e) (store_edges st')) =
      length (filter (\<lambda>e. live e \<and> same_triple p e) (store_edges st))" for p
    unfolding edges' filter_map comp_def reverified_live_triple by simp
  show ?thesis
    using F m1 rel count by simp
qed

theorem reupsert_verifies_only_witness:
  "matches (compute_hash stand_in_digest example_json) located_2021 stored_2021 \<and>
   edges_created (fst (upsert_bundle (compute_hash stand_in_digest example_json) 2000
       \<lparr>nodes = [], edges = [located_2021]\<rparr> ''https://example.com/tesla'' tesla_store)) = 0 \<and>
   edges_invalidated (fst (upsert_bundle (compute_hash stand_in_digest example_json) 2000
       \<lparr>nodes = [], edges = [located_2021]\<rparr> ''https://example.com/tesla'' tesla_store)) = 0 \<and>
   edges_verified (fst (upsert_bundle (compute_hash stand_in_digest example_json) 2000
       \<lparr>nodes = [], edges = [located_2021]\<rparr> ''https://example.com/tesla'' tesla_store)) = 1 \<and>
   length (filter (\<lambda>e. live e \<and> same_triple located_2021 e)
     (store_edges (snd (upsert_bundle (compute_hash stand_in_digest example_json) 2000
       \<lparr>nodes = [], edges = [located_2021]\<rparr> ''https://example.com/tesla'' tesla_store)))) = 1"
proof -
  let ?H = "compute_hash stand_in_digest example_json"
  let ?b = "\<lparr>nodes = [], edges = [located_2021]\<rparr>"
  let ?run = "upsert_bundle ?H 2000 ?b ''https://example.com/tesla'' tesla_store"
  have m: "matches ?H located_2021 stored_2021"
    by (simp add: matches_def live_def same_triple_def stored_2021_def located_2021_def)
  have pre: "\<forall>p\<in>set (edges ?b). \<exists>e\<in>set (store_edges tesla_store). matches ?H p e"
    using m by (simp add: tesla_store_def)
  have run: "?run = (fst ?run, snd ?run)" by simp
  note claim = reupsert_verifies_only[OF pre run]
  have one: "length (filter (\<lambda>e. live e \<and> same_triple located_2021 e) (store_edges tesla_store)) = 1"
    by (simp add: tesla_store_def live_def same_triple_def stored_2021_def located_2021_def)
  from claim have "edges_created (fst ?run) = 0" "edges_invalidated (fst ?run) = 0"
    "edges_verified (fst ?run) = 1"
    "length (filter (\<lambda>e. live e \<and> same_triple located_2021 e) (store_edges (snd ?run))) =
     length (filter (\<lambda>e. live e \<and> same_triple located_2021 e) (store_edges tesla_store))"
    by simp_all
  then show ?thesis using m one by simp
qed

lemma find_stale_mem:
  "u \<in> set (find_stale now d st) \<longleftrightarrow>
     (\<exists>e\<in>set (store_edges st). stale_edge (now - d * day) e \<and> source_url e = u \<and>
        \<not> (\<exists>f\<in>set (store_edges st). fresh_edge (now - d * day) f \<and> source_url f = u))"
  by (auto simp: find_stale_def Let_def list_ex_iff)

text \<open>
  Claim C5. For every threshold \<open>d\<close>, \<open>find_stale\<close> returns a list without duplicates
  that holds a source URL exactly when the URL has a live edge and every live edge of
  that URL was last verified before \<open>now - d\<close> days: a URL whose live edges were all
  verified beyond the window is returned, a URL with any live edge verified within the
  window is not. Staleness is decided per source URL.
\<close>

theorem find_stale_per_url:
  "distinct (find_stale now d st) \<and>
   (u \<in> set (find_stale now d st) \<longleftrightarrow>
      (\<exists>e\<in>set (store_edges st). live e \<and> source_url e = u) \<and>
      (\<forall>e\<in>set (store_edges st). live e \<and> source_url e = u \<longrightarrow>
          last_verified e < now - d * day))"
proof
  show "distinct (find_stale now d st)"
    by (simp add: find_stale_def Let_def)
next
  let ?c = "now - d * day"
  show "u \<in> set (find_stale now d st) \<longleftrightarrow>
      (\<exists>e\<in>set (store_edges st). live e \<and> source_url e = u) \<and>
      (\<forall>e\<in>set (store_edges st). live e \<and> source_url e = u \<longrightarrow> last_verified e < ?c)"
    (is "?L \<longleftrightarrow> ?R")
  proof
    assume ?L
    then obtain e where e: "e \<in> set (store_edges st)" "stale_edge ?c e" "source_url e = u"
      and nofresh: "\<not> (\<exists>f\<in>set (store_edges st). fresh_edge ?c f \<and> source_url f = u)"
      unfolding find_stale_mem by blast
    have "\<exists>e\<in>set (store_edges st). live e \<and> source_url e = u"
      using e by (auto simp: stale_edge_def)
    moreover have "\<forall>f\<in>set (store_edges st). live f \<and> source_url f = u \<longrightarrow> last_verified f < ?c"
      using nofresh by (auto simp: fresh_edge_def not_le)
    ultimately show ?R by blast
  next
    assume R: ?R
    then obtain e where e: "e \<in> set (store_edges st)" "live e" "source_url e = u" by blast
    with R have "stale_edge ?c e" by (auto simp: stale_edge_def)
    moreover have "\<not> (\<exists>f\<in>set (store_edges st). fresh_edge ?c f \<and> source_url f = u)"
      using R by (auto simp: fresh_edge_def)
    ultimately show ?L unfolding find_stale_mem using e by blast
  qed
qed

theorem find_stale_per_url_witness:
  "''https://example.com/old'' \<in> set (find_stale (30 * day) 7 mixed_store) \<and>
   ''https://example.com/recent'' \<notin> set (find_stale (30 * day) 7 mixed_store)"
proof -
  have old: "''https://example.com/old'' \<in> set (find_stale (30 * day) 7 mixed_store)"
    unfolding find_stale_per_url[THEN conjunct2]
    by (simp add: mixed_store_def live_def day_def)
  have recent: "''https://example.com/recent'' \<notin> set (find_stale (30 * day) 7 mixed_store)"
    unfolding find_stale_per_url[THEN conjunct2]
    by (simp add: mixed_store_def live_def day_def)
  show ?thesis using old recent by simp
qed


section \<open>Properties of the healing orchestrator\<close>

text \<open>
  Claim C3. If the stored document state of a URL is the hash of the freshly scraped
  content, \<open>process_url\<close> returns the status \<open>unchanged_verified\<close> with \<open>edges_updated\<close>
  the number of live edges of that URL; it makes exactly the calls scrape, read the
  document state, mark verified, write the document state, so neither the extractor
  nor \<open>upsert_bundle\<close> is invoked and the result is the same whatever the extractor
  and the hash function are; no node is added, every stored edge keeps its place, the
  live edges of the URL get \<open>last_verified = now\<close> and a verification count one
  higher, all other edges are unchanged; and the document state of the URL is
  written: it holds that hash with \<open>last_checked = now\<close>, the document states of all
  other URLs being what they were.
\<close>

theorem process_url_unchanged:
  assumes "get_document_state st url = Some h"
    and "scrape_and_hash url = Inr (content, h)"
    and "process_url H scrape_and_hash extract now url st = (r, st', calls)"
  shows "result_status r = UnchangedVerified \<and>
     edges_updated r = length (filter (\<lambda>e. live e \<and> source_url e = url) (store_edges st)) \<and>
     upsert_counts r = None \<and>
     calls = [ScrapeAndHash url, GetDocumentState url, MarkVerified url, SetDocumentState url h] \<and>
     Extract content \<notin> set calls \<and> UpsertBundle url \<notin> set calls \<and>
     store_nodes st' = store_nodes st \<and>
     list_all2 (refreshed now url) (store_edges st) (store_edges st') \<and>
     get_document_state st' url = Some h \<and>
     map_of (documents st') url = Some \<lparr>document_hash = h, last_checked = now\<rparr> \<and>
     (\<forall>u. u \<noteq> url \<longrightarrow> map_of (documents st') u = map_of (documents st) u) \<and>
     process_url H' scrape_and_hash extract' now url st = (r, st', calls)"
proof -
  have eq: "process_url G scrape_and_hash ex now url st =
      (\<lparr>result_status = UnchangedVerified, result_url = url,
        edges_updated = fst (mark_verified now url st), upsert_counts = None, error = None\<rparr>,
       set_document_state now url h (snd (mark_verified now url st)),
       [ScrapeAndHash url, GetDocumentState url, MarkVerified url, SetDocumentState url h])"
    for G ex
    using assms(1,2) by (simp add: process_url_def split: prod.splits)
  have r: "r = \<lparr>result_status = UnchangedVerified, result_url = url,
        edges_updated = fst (mark_verified now url st), upsert_counts = None, error = None\<rparr>"
    and st': "st' = set_document_state now url h (snd (mark_verified now url st))"
    and calls: "calls = [ScrapeAndHash url, GetDocumentState url, MarkVerified url,
        SetDocumentState url h]"
    using assms(3) unfolding eq by simp_all
  have edges: "store_edges st' =
      map (\<lambda>e. if live e \<and> source_url e = url
                then e\<lparr>last_verified := now, verification_count := Suc (verification_count e)\<rparr>
                else e) (store_edges st)"
    by (simp add: st' set_document_state_def mark_verified_def)
  have "list_all2 (refreshed now url) (store_edges st) (store_edges st')"
    unfolding edges by (simp add: list_all2_map2 refreshed_def list.rel_refl)
  moreover have "store_nodes st' = store_nodes st"
    by (simp add: st' set_document_state_def mark_verified_def)
  moreover have "get_document_state st' url = Some h"
    by (simp add: st' set_document_state_def get_document_state_def)
  moreover have "map_of (documents st') url = Some \<lparr>document_hash = h, last_checked = now\<rparr>"
    by (simp add: st' set_document_state_def)
  moreover have "map_of (documents st') u = map_of (documents st) u" if "u \<noteq> url" for u
  proof -
    have "map_of (filter (\<lambda>(v, d). v \<noteq> url) ds) u = map_of ds u"
      for ds :: "(string \<times> document_state) list"
      using that by (induction ds) auto
    then show ?thesis
      using that by (simp add: st' set_document_state_def mark_verified_def)
  qed
  moreover have "edges_updated r =
      length (filter (\<lambda>e. live e \<and> source_url e = url) (store_edges st))"
    by (simp add: r mark_verified_def)
  moreover have "process_url H' scrape_and_hash extract' now url st = (r, st', calls)"
    unfolding eq r st' calls ..
  ultimately show ?thesis
    using r calls by simp
qed

theorem process_url_unchanged_witness:
  "get_document_state tesla_store ''https://example.com/tesla'' = Some ''hash123'' \<and>
   result_status (fst (process_url (compute_hash stand_in_digest example_json) same_page
      no_extraction 2000 ''https://example.com/tesla'' tesla_store)) = UnchangedVerified \<and>
   edges_updated (fst (process_url (compute_hash stand_in_digest example_json) same_page
      no_extraction 2000 ''https://example.com/tesla'' tesla_store)) = 1 \<and>
   store_nodes (fst (snd (process_url (compute_hash stand_in_digest example_json) same_page
      no_extraction 2000 ''https://example.com/tesla'' tesla_store))) = store_nodes tesla_store \<and>
   map_of (documents tesla_store) ''https://example.com/tesla'' =
     Some \<lparr>document_hash = ''hash123'', last_checked = 1000\<rparr> \<and>
   map_of (documents (fst (snd (process_url (compute_hash stand_in_digest example_json)
      same_page no_extraction 2000 ''https://example.com/tesla'' tesla_store))))
      ''https://example.com/tesla'' =
     Some \<lparr>document_hash = ''hash123'', last_checked = 2000\<rparr>"
proof -
  let ?run = "process_url (compute_hash stand_in_digest example_json) same_page
      no_extraction 2000 ''https://example.com/tesla'' tesla_store"
  have doc: "get_document_state tesla_store ''https://example.com/tesla'' = Some ''hash123''"
    by (simp add: get_document_state_def tesla_store_def)
  have page: "same_page ''https://example.com/tesla'' = Inr (''markdown content'', ''hash123'')"
    by (simp add: same_page_def)
  have run: "?run = (fst ?run, fst (snd ?run), snd (snd ?run))" by simp
  note claim = process_url_unchanged[OF doc page run]
  have n: "length (filter (\<lambda>e. live e \<and> source_url e = ''https://example.com/tesla'')
      (store_edges tesla_store)) = 1"
    by (simp add: tesla_store_def live_def stored_2021_def)
  from claim have "result_status (fst ?run) = UnchangedVerified"
    "edges_updated (fst ?run) = length (filter (\<lambda>e. live e \<and> source_url e = ''https://example.com/tesla'')
      (store_edges tesla_store))"
    "store_nodes (fst (snd ?run)) = store_nodes tesla_store"
    "map_of (documents (fst (snd ?run))) ''https://example.com/tesla'' =
       Some \<lparr>document_hash = ''hash123'', last_checked = 2000\<rparr>"
    by simp_all
  moreover have "map_of (documents tesla_store) ''https://example.com/tesla'' =
      Some \<lparr>document_hash = ''hash123'', last_checked = 1000\<rparr>"
    by (simp add: tesla_store_def)
  ultimately show ?thesis using doc n by simp
qed

end
